theory Spec2Isabelle
  imports Complex_Main "HOL-Library.AList"
begin

section \<open>Python values\<close>

text \<open>
  The collector of \<^verbatim>\<open>checks/collector.py\<close> assembles a dictionary from whatever its
  checks return, so the model needs a type of Python values. Dictionaries are association
  lists with string keys (every key the collector itself writes is a string); a lookup
  reads the first pair of a key, \<^verbatim>\<open>d[k] = v\<close> is \<open>AList.update\<close>,
  \<^verbatim>\<open>d.update(e)\<close> is \<open>AList.merge\<close> and \<^verbatim>\<open>del d[k]\<close> is \<open>AList.delete\<close>.
  Readings of the clock are exact reals.
\<close>

datatype pyval =
    PNone
  | PBool bool
  | PInt int
  | PFloat real
  | PStr string
  | PList "pyval list"
  | PTuple "pyval list"
  | PDict "(string \<times> pyval) list"

type_synonym pydict = "(string \<times> pyval) list"

text \<open>
  Exceptions. \<open>Failure\<close> is an instance of \<^verbatim>\<open>Exception\<close> raised inside a collaborator
  (a check, an emitter, the persistence layer), named by its message; the others are the
  ones the interpreter raises for the collector's own statements.
\<close>

datatype exn =
    KeyError string
  | TypeError
  | AttributeError string
  | IndexError
  | ValueError
  | Failure string

text \<open>What a call into a collaborator does: it raises or it returns.\<close>

type_synonym 'a call = "exn + 'a"

definition and_then :: "exn + 'a \<Rightarrow> ('a \<Rightarrow> exn + 'b) \<Rightarrow> exn + 'b" where
  "and_then r f = (case r of Inl e \<Rightarrow> Inl e | Inr v \<Rightarrow> f v)"

text \<open>Truth value testing, as \<^verbatim>\<open>if x:\<close> does it.\<close>

fun truthy :: "pyval \<Rightarrow> bool" where
  "truthy PNone = False"
| "truthy (PBool b) = b"
| "truthy (PInt i) = (i \<noteq> 0)"
| "truthy (PFloat r) = (r \<noteq> 0)"
| "truthy (PStr s) = (s \<noteq> [])"
| "truthy (PList xs) = (xs \<noteq> [])"
| "truthy (PTuple xs) = (xs \<noteq> [])"
| "truthy (PDict d) = (d \<noteq> [])"

text \<open>\<^verbatim>\<open>len(x)\<close>: defined on strings, sequences and dictionaries, a TypeError elsewhere.\<close>

fun py_len :: "pyval \<Rightarrow> exn + int" where
  "py_len (PStr s) = Inr (int (length s))"
| "py_len (PList xs) = Inr (int (length xs))"
| "py_len (PTuple xs) = Inr (int (length xs))"
| "py_len (PDict d) = Inr (int (length (remdups (map fst d))))"
| "py_len _ = Inl TypeError"

text \<open>Iteration, as \<^verbatim>\<open>list.extend\<close> and \<^verbatim>\<open>+=\<close> on a list consume their argument.\<close>

fun py_iter :: "pyval \<Rightarrow> exn + pyval list" where
  "py_iter (PStr s) = Inr (map (\<lambda>c. PStr [c]) s)"
| "py_iter (PList xs) = Inr xs"
| "py_iter (PTuple xs) = Inr xs"
| "py_iter (PDict d) = Inr (map PStr (remdups (map fst d)))"
| "py_iter _ = Inl TypeError"

text \<open>
  \<^verbatim>\<open>x[i]\<close> with a literal index \<open>i\<close> that is 0 or 1. A dictionary of string keys has
  no integer key, so the subscript is a KeyError there.
\<close>

fun py_index :: "pyval \<Rightarrow> nat \<Rightarrow> exn + pyval" where
  "py_index (PList xs) i = (if i < length xs then Inr (xs ! i) else Inl IndexError)"
| "py_index (PTuple xs) i = (if i < length xs then Inr (xs ! i) else Inl IndexError)"
| "py_index (PStr s) i = (if i < length s then Inr (PStr [s ! i]) else Inl IndexError)"
| "py_index (PDict d) i = Inl (KeyError (if i = 0 then ''0'' else ''1''))"
| "py_index _ i = Inl TypeError"

text \<open>\<^verbatim>\<open>d[k]\<close> and \<^verbatim>\<open>d.get(k)\<close> on a dictionary.\<close>

definition subscript :: "pydict \<Rightarrow> string \<Rightarrow> exn + pyval" where
  "subscript d k = (case map_of d k of None \<Rightarrow> Inl (KeyError k) | Some v \<Rightarrow> Inr v)"

definition dict_get :: "pydict \<Rightarrow> string \<Rightarrow> pyval" where
  "dict_get d k = (case map_of d k of None \<Rightarrow> PNone | Some v \<Rightarrow> v)"

text \<open>\<^verbatim>\<open>x.get(k)\<close> on any value: only a dictionary has the method.\<close>

fun py_get :: "pyval \<Rightarrow> string \<Rightarrow> exn + pyval" where
  "py_get (PDict d) k = Inr (dict_get d k)"
| "py_get _ k = Inl (AttributeError ''get'')"

text \<open>\<^verbatim>\<open>x[k]\<close> with a string \<open>k\<close> on any value.\<close>

fun py_subscript :: "pyval \<Rightarrow> string \<Rightarrow> exn + pyval" where
  "py_subscript (PDict d) k = subscript d k"
| "py_subscript _ k = Inl TypeError"

text \<open>
  \<^verbatim>\<open>k in x\<close> with a string \<open>k\<close>: a key of a dictionary, an element of a sequence, a
  substring of a string.
\<close>

fun substring :: "string \<Rightarrow> string \<Rightarrow> bool" where
  "substring k [] = (k = [])"
| "substring k (c # cs) = (take (length k) (c # cs) = k \<or> substring k cs)"

fun py_contains :: "pyval \<Rightarrow> string \<Rightarrow> exn + bool" where
  "py_contains (PDict d) k = Inr (map_of d k \<noteq> None)"
| "py_contains (PList xs) k = Inr (List.member xs (PStr k))"
| "py_contains (PTuple xs) k = Inr (List.member xs (PStr k))"
| "py_contains (PStr s) k = Inr (substring k s)"
| "py_contains _ k = Inl TypeError"

text \<open>
  \<^verbatim>\<open>x += y\<close>: a list is extended in place by any iterable; tuples and strings are
  concatenated with their own kind; numbers are added.
\<close>

fun py_number :: "pyval \<Rightarrow> (int + real) option" where
  "py_number (PBool b) = Some (Inl (if b then 1 else 0))"
| "py_number (PInt i) = Some (Inl i)"
| "py_number (PFloat r) = Some (Inr r)"
| "py_number _ = None"

fun py_iadd :: "pyval \<Rightarrow> pyval \<Rightarrow> exn + pyval" where
  "py_iadd (PList xs) y = and_then (py_iter y) (\<lambda>ys. Inr (PList (xs @ ys)))"
| "py_iadd (PTuple xs) (PTuple ys) = Inr (PTuple (xs @ ys))"
| "py_iadd (PStr s) (PStr t) = Inr (PStr (s @ t))"
| "py_iadd x y =
     (case (py_number x, py_number y) of
        (Some (Inl i), Some (Inl j)) \<Rightarrow> Inr (PInt (i + j))
      | (Some (Inl i), Some (Inr r)) \<Rightarrow> Inr (PFloat (real_of_int i + r))
      | (Some (Inr r), Some (Inl j)) \<Rightarrow> Inr (PFloat (r + real_of_int j))
      | (Some (Inr r), Some (Inr q)) \<Rightarrow> Inr (PFloat (r + q))
      | _ \<Rightarrow> Inl TypeError)"

text \<open>
  The argument of \<^verbatim>\<open>dict.update\<close>: a dictionary, or an iterable of pairs, where a later
  pair of a key wins. A pair whose key is not a string has no place in \<open>pydict\<close> and is
  reported as a TypeError.
\<close>

fun pairs_of :: "pyval list \<Rightarrow> exn + pydict" where
  "pairs_of [] = Inr []"
| "pairs_of (x # xs) =
     and_then (py_iter x) (\<lambda>kv.
       case kv of
         [PStr k, v] \<Rightarrow> and_then (pairs_of xs) (\<lambda>d. Inr (d @ [(k, v)]))
       | [_, _] \<Rightarrow> Inl TypeError
       | _ \<Rightarrow> Inl ValueError)"

fun update_arg :: "pyval \<Rightarrow> exn + pydict" where
  "update_arg (PDict d) = Inr d"
| "update_arg x = and_then (py_iter x) pairs_of"

section \<open>Status records and the effects of a cycle\<close>

text \<open>
  \<^verbatim>\<open>CheckStatus(name, instance_statuses, metric_count, event_count,
  init_failed_error=None, init_failed_traceback=None)\<close> and
  \<^verbatim>\<open>EmitterStatus(name, error=None)\<close>, as the collector constructs them.
\<close>

record check_status =
  cs_name :: string
  cs_instance_statuses :: pyval
  cs_metric_count :: pyval
  cs_event_count :: pyval
  cs_init_failed_error :: pyval
  cs_init_failed_traceback :: pyval

definition CheckStatus :: "string \<Rightarrow> pyval \<Rightarrow> pyval \<Rightarrow> pyval \<Rightarrow> check_status" where
  "CheckStatus n inst mc ec =
     \<lparr>cs_name = n, cs_instance_statuses = inst, cs_metric_count = mc, cs_event_count = ec,
      cs_init_failed_error = PNone, cs_init_failed_traceback = PNone\<rparr>"

definition CheckStatus_init_failed :: "string \<Rightarrow> pyval \<Rightarrow> pyval \<Rightarrow> check_status" where
  "CheckStatus_init_failed n err tb =
     \<lparr>cs_name = n, cs_instance_statuses = PNone, cs_metric_count = PNone,
      cs_event_count = PNone, cs_init_failed_error = err, cs_init_failed_traceback = tb\<rparr>"

record emitter_status =
  es_name :: string
  es_error :: "exn option"

definition EmitterStatus :: "string \<Rightarrow> exn option \<Rightarrow> emitter_status" where
  "EmitterStatus n e = \<lparr>es_name = n, es_error = e\<rparr>"

text \<open>
  What a cycle does to the outside, in order: a line handed to the logger (level, format
  string, arguments), a call of a check (named by the key, name or module it is
  registered under), a call of an emitter with the payload it receives, and the call of
  \<^verbatim>\<open>CollectorStatus(...).persist()\<close> with its three arguments.
\<close>

datatype effect =
    Log string string "pyval list"
  | Invoke string
  | EmitterCall string pydict
  | PersistCall "check_status list" "emitter_status list" pyval

section \<open>The collector and its collaborators\<close>

text \<open>
  A checks.d check: its \<^verbatim>\<open>name\<close> and what \<^verbatim>\<open>run()\<close>, \<^verbatim>\<open>get_metrics()\<close> and
  \<^verbatim>\<open>get_events()\<close> do when the cycle calls them. \<open>chk_stops\<close> says that
  \<^verbatim>\<open>Collector.stop()\<close> is called from outside while this check is running.
\<close>

record checkd =
  chk_name :: string
  chk_run :: "pyval call"
  chk_get_metrics :: "pyval call"
  chk_get_events :: "pyval call"
  chk_stops :: bool

text \<open>
  The \<^verbatim>\<open>checksd\<close> argument of \<^verbatim>\<open>run\<close> when it is truthy: a dictionary with the keys
  \<^verbatim>\<open>initialized_checks\<close> (iterated as a sequence of checks) and
  \<^verbatim>\<open>init_failed_checks\<close>. A falsy argument is \<open>None\<close>.
\<close>

record checksd =
  initialized_checks :: "checkd list"
  init_failed_checks :: pyval

text \<open>An emitter: its \<^verbatim>\<open>__name__\<close>, whether the call raises, whether a stop arrives during it.\<close>

record emitter =
  em_name :: string
  em_raises :: "exn option"
  em_stops :: bool

text \<open>A custom metrics check (loaded from a module), an event check, a resources check.\<close>

record metrics_check =
  mc_module :: string
  mc_check :: "pyval call"

record event_check =
  ec_key :: string
  ec_check :: "pyval call"

record resources_check =
  RESOURCE_KEY :: string
  rc_check :: "exn option"
  rc_pop_snapshots :: "pyval call"
  rc_get_format_version :: "pyval call"
  rc_describe_format_if_needed :: "pyval call"

text \<open>The attributes of a \<^verbatim>\<open>Collector\<close> object.\<close>

record collector =
  emit_duration :: pyval
  agentConfig :: pydict
  os :: string
  emitters :: "emitter list"
  metadata_interval :: int
  metadata_start :: real
  run_count :: int
  continue_running :: bool
  metadata_cache :: pyval
  initialized_checks_d :: "checkd list"
  init_failed_checks_d :: pyval
  metrics_checks :: "metrics_check list"
  event_checks :: "event_check list"
  resources_checks :: "resources_check list"

text \<open>
  Everything a cycle reads from outside the collector: the clock, the helper functions of
  \<^verbatim>\<open>util\<close> and \<^verbatim>\<open>config\<close>, the \<^verbatim>\<open>socket\<close> module, and what each of the
  collaborators held in fixed attributes does when called in this cycle. The helper
  functions are taken to return; the checks may raise.
\<close>

record world =
  w_time_build :: real
  w_time_meta :: real
  w_sys_version :: string
  w_get_hostname_cfg :: pyval
  w_get_hostname :: pyval
  w_get_uuid :: pyval
  w_get_version :: string
  w_get_system_stats :: pyval
  w_ec2_metadata :: pydict
  w_socket_gethostname :: "pyval call"
  w_socket_getfqdn :: "pyval call"
  w_unix_disk :: "pyval call"
  w_unix_load :: "pyval call"
  w_unix_memory :: "pyval call"
  w_unix_io :: "pyval call"
  w_unix_processes :: "pyval call"
  w_unix_cpu :: "pyval call"
  w_win32_disk :: "pyval call"
  w_win32_memory :: "pyval call"
  w_win32_cpu :: "pyval call"
  w_win32_network :: "pyval call"
  w_win32_io :: "pyval call"
  w_win32_proc :: "pyval call"
  w_ganglia :: "pyval call"
  w_dogstream :: "pyval call"
  w_ddforwarder :: "pyval call"
  w_agent_metrics :: "pyval call"
  w_collect_duration :: real
  w_emit_duration :: real
  w_persist :: "exn option"

section \<open>The payload of a cycle\<close>

text \<open>
  \<^verbatim>\<open>run\<close> keeps the list under \<^verbatim>\<open>payload['metrics']\<close> and the dictionary under
  \<^verbatim>\<open>payload['events']\<close> in local variables and mutates them through those, while
  \<^verbatim>\<open>payload.update(...)\<close> may rebind the two keys (and \<^verbatim>\<open>'resources'\<close>) to something
  else. So a key of the payload holds either a value of its own or a reference to one of
  the three containers that \<^verbatim>\<open>_build_payload\<close> creates.
\<close>

datatype slot = Val pyval | MetricsRef | EventsRef | ResourcesRef

record cycle =
  payload :: "(string \<times> slot) list"
  metrics :: "pyval list"
  events :: pydict
  resources :: pydict
  trace :: "effect list"

definition deref :: "cycle \<Rightarrow> slot \<Rightarrow> pyval" where
  "deref cy s = (case s of Val v \<Rightarrow> v | MetricsRef \<Rightarrow> PList (metrics cy)
                 | EventsRef \<Rightarrow> PDict (events cy) | ResourcesRef \<Rightarrow> PDict (resources cy))"

text \<open>The payload as a reader of the dictionary sees it.\<close>

definition view :: "cycle \<Rightarrow> pydict" where
  "view cy = map (\<lambda>(k, s). (k, deref cy s)) (payload cy)"

definition emits :: "effect list \<Rightarrow> cycle \<Rightarrow> cycle" where
  "emits es cy = cy\<lparr>trace := trace cy @ es\<rparr>"

definition set_key :: "string \<Rightarrow> pyval \<Rightarrow> cycle \<Rightarrow> cycle" where
  "set_key k v cy = cy\<lparr>payload := AList.update k (Val v) (payload cy)\<rparr>"

text \<open>\<^verbatim>\<open>payload.update(x)\<close>.\<close>

definition update_payload :: "pyval \<Rightarrow> cycle \<Rightarrow> exn + cycle" where
  "update_payload x cy =
     and_then (update_arg x) (\<lambda>d.
       Inr (cy\<lparr>payload := AList.merge (payload cy) (map (\<lambda>(k, v). (k, Val v)) d)\<rparr>))"

section \<open>Building the payload\<close>

definition is_first_run :: "collector \<Rightarrow> bool" where
  "is_first_run c = (run_count c \<le> 1)"

text \<open>\<^verbatim>\<open>_should_send_metadata\<close>: the answer, the collector afterwards, what it logs.\<close>

definition should_send_metadata :: "world \<Rightarrow> collector \<Rightarrow> bool \<times> collector \<times> effect list" where
  "should_send_metadata w c =
     (let now = w_time_meta w in
      if now - metadata_start c \<ge> real_of_int (metadata_interval c)
      then (True, c\<lparr>metadata_start := now\<rparr>,
            [Log ''debug'' ''Metadata interval has passed. Sending metadata.'' []])
      else (False, c, []))"

text \<open>\<^verbatim>\<open>_get_metadata\<close>. Both \<^verbatim>\<open>try\<close> blocks swallow whatever the socket call raises.\<close>

definition get_metadata :: "world \<Rightarrow> collector \<Rightarrow> pydict" where
  "get_metadata w c =
     (let metadata = w_ec2_metadata w;
          metadata = (if truthy (dict_get metadata ''hostname'')
                      then AList.delete ''hostname''
                             (AList.update ''ec2-hostname'' (dict_get metadata ''hostname'') metadata)
                      else metadata);
          metadata = (if truthy (dict_get (agentConfig c) ''hostname'')
                      then AList.update ''agent-hostname'' (dict_get (agentConfig c) ''hostname'') metadata
                      else (case w_socket_gethostname w of
                              Inr h \<Rightarrow> AList.update ''socket-hostname'' h metadata
                            | Inl e \<Rightarrow> metadata));
          metadata = (case w_socket_getfqdn w of
                        Inr f \<Rightarrow> AList.update ''socket-fqdn'' f metadata
                      | Inl e \<Rightarrow> metadata)
      in AList.update ''hostname'' (w_get_hostname w) metadata)"

text \<open>
  The first block of \<^verbatim>\<open>_build_payload\<close>: the dictionary literal. The two subscripts of
  the configuration raise KeyError when the key is missing.
\<close>

definition base_payload :: "world \<Rightarrow> collector \<Rightarrow> exn + cycle" where
  "base_payload w c =
     and_then (subscript (agentConfig c) ''version'') (\<lambda>version.
     and_then (subscript (agentConfig c) ''api_key'') (\<lambda>api_key.
       Inr \<lparr>payload =
              [(''collection_timestamp'', Val (PFloat (w_time_build w))),
               (''os'', Val (PStr (os c))),
               (''python'', Val (PStr (w_sys_version w))),
               (''agentVersion'', Val version),
               (''apiKey'', Val api_key),
               (''events'', EventsRef),
               (''metrics'', MetricsRef),
               (''resources'', ResourcesRef),
               (''internalHostname'', Val (w_get_hostname_cfg w)),
               (''uuid'', Val (w_get_uuid w))],
            metrics = [], events = [], resources = [], trace = []\<rparr>))"

text \<open>\<^verbatim>\<open>payload[k]\<close> and \<^verbatim>\<open>payload[k][j] = v\<close>, through the references.\<close>

definition payload_item :: "cycle \<Rightarrow> string \<Rightarrow> exn + pyval" where
  "payload_item cy k =
     (case map_of (payload cy) k of None \<Rightarrow> Inl (KeyError k) | Some s \<Rightarrow> Inr (deref cy s))"

definition payload_set_inner :: "string \<Rightarrow> string \<Rightarrow> pyval \<Rightarrow> cycle \<Rightarrow> exn + cycle" where
  "payload_set_inner k j v cy =
     (case map_of (payload cy) k of
        None \<Rightarrow> Inl (KeyError k)
      | Some EventsRef \<Rightarrow> Inr (cy\<lparr>events := AList.update j v (events cy)\<rparr>)
      | Some ResourcesRef \<Rightarrow> Inr (cy\<lparr>resources := AList.update j v (resources cy)\<rparr>)
      | Some (Val (PDict d)) \<Rightarrow> Inr (set_key k (PDict (AList.update j v d)) cy)
      | Some _ \<Rightarrow> Inl TypeError)"

text \<open>The second block: system stats and the startup event on the first postback.\<close>

definition startup_event :: "world \<Rightarrow> collector \<Rightarrow> cycle \<Rightarrow> exn + pyval" where
  "startup_event w c cy =
     and_then (subscript (agentConfig c) ''api_key'') (\<lambda>api_key.
     and_then (payload_item cy ''internalHostname'') (\<lambda>host.
       Inr (PList [PDict [(''api_key'', api_key),
                          (''host'', host),
                          (''timestamp'', PFloat (w_time_build w)),
                          (''event_type'', PStr ''Agent Startup''),
                          (''msg_text'', PStr (''Version '' @ w_get_version w))]])))"

definition add_startup :: "bool \<Rightarrow> world \<Rightarrow> collector \<Rightarrow> cycle \<Rightarrow> exn + cycle" where
  "add_startup start_event w c cy =
     (if start_event \<and> is_first_run c
      then (let cy = set_key ''systemStats''
                       (case map_of (agentConfig c) ''system_stats'' of
                          None \<Rightarrow> PDict [] | Some v \<Rightarrow> v) cy
            in and_then (startup_event w c cy) (\<lambda>ev.
                 payload_set_inner ''events'' ''System'' ev cy))
      else Inr cy)"

text \<open>
  The third block: the host metadata. \<^verbatim>\<open>self._is_first_run() or
  self._should_send_metadata()\<close> evaluates its second operand only when the first is
  false. The assignment to \<^verbatim>\<open>self.metadata_cache\<close> precedes the subscript
  \<^verbatim>\<open>self.agentConfig['tags']\<close>, so the collector is returned on both outcomes.
\<close>

definition add_metadata :: "world \<Rightarrow> collector \<Rightarrow> cycle \<Rightarrow> (exn + cycle) \<times> collector" where
  "add_metadata w c cy =
     (let (send, c, logged) = (if is_first_run c then (True, c, [])
                               else should_send_metadata w c);
          cy = emits logged cy
      in if send
         then (let cy = set_key ''systemStats'' (w_get_system_stats w) cy;
                   meta = PDict (get_metadata w c);
                   cy = set_key ''meta'' meta cy;
                   c = c\<lparr>metadata_cache := meta\<rparr>
               in case subscript (agentConfig c) ''tags'' of
                    Inl e \<Rightarrow> (Inl e, c)
                  | Inr tags \<Rightarrow>
                      (let cy = (if tags \<noteq> PNone then set_key ''tags'' tags cy else cy);
                           cy = (if is_first_run c
                                 then (if tags \<noteq> PNone
                                       then emits [Log ''info'' ''Hostnames: %s, tags: %s''
                                                     [metadata_cache c, tags]] cy
                                       else emits [Log ''info'' ''Hostnames: %s''
                                                     [metadata_cache c]] cy)
                                 else cy)
                       in (Inr cy, c)))
         else (Inr cy, c))"

definition build_payload :: "bool \<Rightarrow> world \<Rightarrow> collector \<Rightarrow> (exn + cycle) \<times> collector" where
  "build_payload start_event w c =
     (case and_then (base_payload w c) (add_startup start_event w c) of
        Inl e \<Rightarrow> (Inl e, c)
      | Inr cy \<Rightarrow> add_metadata w c cy)"


section \<open>Running the checks\<close>

subsection \<open>System checks\<close>

text \<open>
  The Windows branch: six \<^verbatim>\<open>metrics.extend(check(...))\<close> under one \<^verbatim>\<open>try\<close>. The first
  call that raises (or returns something \<^verbatim>\<open>extend\<close> cannot iterate) ends the block;
  the metrics extended before it stay. The result is the exception that ended the block,
  if any, and the cycle at that point.
\<close>

fun extend_each :: "(string \<times> pyval call) list \<Rightarrow> cycle \<Rightarrow> exn option \<times> cycle" where
  "extend_each [] cy = (None, cy)"
| "extend_each ((name, r) # rest) cy =
     (let cy = emits [Invoke name] cy in
      case and_then r py_iter of
        Inl e \<Rightarrow> (Some e, cy)
      | Inr ms \<Rightarrow> extend_each rest (cy\<lparr>metrics := metrics cy @ ms\<rparr>))"

definition win32_system_checks :: "world \<Rightarrow> cycle \<Rightarrow> cycle" where
  "win32_system_checks w cy =
     (case extend_each [(''win32.disk'', w_win32_disk w), (''win32.memory'', w_win32_memory w),
                        (''win32.cpu'', w_win32_cpu w), (''win32.network'', w_win32_network w),
                        (''win32.io'', w_win32_io w), (''win32.proc'', w_win32_proc w)] cy of
        (None, cy) \<Rightarrow> cy
      | (Some e, cy) \<Rightarrow>
          emits [Log ''exception'' ''Unable to fetch Windows system metrics.'' []] cy)"

text \<open>The Unix branch: six checks in a row, none of them inside a \<^verbatim>\<open>try\<close>.\<close>

definition unix_disk :: "world \<Rightarrow> cycle \<Rightarrow> exn + cycle" where
  "unix_disk w cy =
     (let cy = emits [Invoke ''unix.disk''] cy in
      and_then (w_unix_disk w) (\<lambda>diskUsage.
        if truthy diskUsage
        then and_then (py_len diskUsage) (\<lambda>n.
               if n = 2
               then and_then (py_index diskUsage 0) (\<lambda>d0.
                    and_then (py_index diskUsage 1) (\<lambda>d1.
                      Inr (set_key ''inodes'' d1 (set_key ''diskUsage'' d0 cy))))
               else Inr cy)
        else Inr cy))"

definition unix_load :: "world \<Rightarrow> cycle \<Rightarrow> exn + cycle" where
  "unix_load w cy =
     (let cy = emits [Invoke ''unix.load''] cy in
      and_then (w_unix_load w) (\<lambda>load. update_payload load cy))"

fun get_each :: "pyval \<Rightarrow> (string \<times> string) list \<Rightarrow> exn + pydict" where
  "get_each m [] = Inr []"
| "get_each m ((k, j) # kjs) =
     and_then (py_get m j) (\<lambda>v. and_then (get_each m kjs) (\<lambda>d. Inr ((k, v) # d)))"

definition memory_keys :: "(string \<times> string) list" where
  "memory_keys =
     [(''memPhysUsed'', ''physUsed''), (''memPhysPctUsable'', ''physPctUsable''),
      (''memPhysFree'', ''physFree''), (''memPhysTotal'', ''physTotal''),
      (''memPhysUsable'', ''physUsable''), (''memSwapUsed'', ''swapUsed''),
      (''memSwapFree'', ''swapFree''), (''memSwapPctFree'', ''swapPctFree''),
      (''memSwapTotal'', ''swapTotal''), (''memCached'', ''physCached''),
      (''memBuffers'', ''physBuffers''), (''memShared'', ''physShared'')]"

definition unix_memory :: "world \<Rightarrow> cycle \<Rightarrow> exn + cycle" where
  "unix_memory w cy =
     (let cy = emits [Invoke ''unix.memory''] cy in
      and_then (w_unix_memory w) (\<lambda>memory.
        if truthy memory
        then and_then (get_each memory memory_keys) (\<lambda>d. update_payload (PDict d) cy)
        else Inr cy))"

definition unix_io :: "world \<Rightarrow> cycle \<Rightarrow> exn + cycle" where
  "unix_io w cy =
     (let cy = emits [Invoke ''unix.io''] cy in
      and_then (w_unix_io w) (\<lambda>ioStats.
        Inr (if truthy ioStats then set_key ''ioStats'' ioStats cy else cy)))"

definition unix_processes :: "world \<Rightarrow> cycle \<Rightarrow> exn + cycle" where
  "unix_processes w cy =
     (let cy = emits [Invoke ''unix.processes''] cy in
      and_then (w_unix_processes w) (\<lambda>processes.
        update_payload (PDict [(''processes'', processes)]) cy))"

definition unix_cpu :: "world \<Rightarrow> cycle \<Rightarrow> exn + cycle" where
  "unix_cpu w cy =
     (let cy = emits [Invoke ''unix.cpu''] cy in
      and_then (w_unix_cpu w) (\<lambda>cpuStats.
        if truthy cpuStats then update_payload cpuStats cy else Inr cy))"

definition unix_system_checks :: "world \<Rightarrow> cycle \<Rightarrow> exn + cycle" where
  "unix_system_checks w cy =
     and_then (unix_disk w cy) (\<lambda>cy.
     and_then (unix_load w cy) (\<lambda>cy.
     and_then (unix_memory w cy) (\<lambda>cy.
     and_then (unix_io w cy) (\<lambda>cy.
     and_then (unix_processes w cy) (\<lambda>cy.
     unix_cpu w cy)))))"

definition system_checks :: "world \<Rightarrow> collector \<Rightarrow> cycle \<Rightarrow> exn + cycle" where
  "system_checks w c cy =
     (if os c = ''windows'' then Inr (win32_system_checks w cy) else unix_system_checks w cy)"

subsection \<open>Old-style checks\<close>

text \<open>
  The events of the log-stream check are merged under \<^verbatim>\<open>'dogstream'\<close>: the test reads
  \<^verbatim>\<open>payload['events']\<close>, the two writes go through the local variable \<^verbatim>\<open>events\<close>.
\<close>

definition merge_dogstream_events :: "pyval \<Rightarrow> cycle \<Rightarrow> exn + cycle" where
  "merge_dogstream_events dogstreamEvents cy =
     and_then (payload_item cy ''events'') (\<lambda>pe.
     and_then (py_contains pe ''dogstream'') (\<lambda>present.
       if present
       then and_then (subscript (events cy) ''dogstream'') (\<lambda>old.
              case old of
                PList xs \<Rightarrow> and_then (py_iter dogstreamEvents) (\<lambda>ys.
                  Inr (cy\<lparr>events := AList.update ''dogstream'' (PList (xs @ ys)) (events cy)\<rparr>))
              | _ \<Rightarrow> Inl (AttributeError ''extend''))
       else Inr (cy\<lparr>events := AList.update ''dogstream'' dogstreamEvents (events cy)\<rparr>)))"

definition dogstream_data :: "pyval \<Rightarrow> cycle \<Rightarrow> exn + cycle" where
  "dogstream_data dogstreamData cy =
     (if truthy dogstreamData
      then and_then (py_get dogstreamData ''dogstreamEvents'') (\<lambda>dogstreamEvents.
           and_then (if truthy dogstreamEvents
                     then and_then (merge_dogstream_events dogstreamEvents cy) (\<lambda>cy.
                            case dogstreamData of
                              PDict d \<Rightarrow> Inr (PDict (AList.delete ''dogstreamEvents'' d), cy)
                            | _ \<Rightarrow> Inl TypeError)
                     else Inr (dogstreamData, cy)) (\<lambda>(dogstreamData, cy).
             update_payload dogstreamData cy))
      else Inr cy)"

definition old_style_checks :: "world \<Rightarrow> cycle \<Rightarrow> exn + cycle" where
  "old_style_checks w cy =
     (let cy = emits [Invoke ''ganglia''] cy in
      and_then (w_ganglia w) (\<lambda>gangliaData.
      let cy = emits [Invoke ''dogstream''] cy in
      and_then (w_dogstream w) (\<lambda>dogstreamData.
      let cy = emits [Invoke ''ddforwarder''] cy in
      and_then (w_ddforwarder w) (\<lambda>ddforwarderData.
      let cy = (if gangliaData \<noteq> PBool False \<and> gangliaData \<noteq> PNone
                then set_key ''ganglia'' gangliaData cy else cy) in
      and_then (dogstream_data dogstreamData cy) (\<lambda>cy.
        Inr (if truthy ddforwarderData then set_key ''datadog'' ddforwarderData cy else cy))))))"

subsection \<open>Event checks, resources checks, custom metrics checks\<close>

fun run_event_checks :: "event_check list \<Rightarrow> cycle \<Rightarrow> exn + cycle" where
  "run_event_checks [] cy = Inr cy"
| "run_event_checks (event_check # rest) cy =
     (let cy = emits [Invoke (ec_key event_check)] cy in
      and_then (ec_check event_check) (\<lambda>event_data.
        run_event_checks rest
          (if truthy event_data
           then cy\<lparr>events := AList.update (ec_key event_check) event_data (events cy)\<rparr>
           else cy)))"

text \<open>One pass of the loop over the resources checks; \<open>has_resource\<close> is threaded through.\<close>

definition resources_step :: "resources_check \<Rightarrow> bool \<times> cycle \<Rightarrow> exn + bool \<times> cycle" where
  "resources_step rc hc =
     (let (has_resource, cy) = hc;
          cy = emits [Invoke (RESOURCE_KEY rc)] cy in
      case rc_check rc of
        Some e \<Rightarrow> Inl e
      | None \<Rightarrow>
          and_then (rc_pop_snapshots rc) (\<lambda>snaps.
            if truthy snaps
            then and_then (rc_get_format_version rc) (\<lambda>fv.
                 and_then (rc_describe_format_if_needed rc) (\<lambda>res_format.
                   let res_value = [(''snaps'', snaps), (''format_version'', fv)];
                       res_value = (if res_format \<noteq> PNone
                                    then AList.update ''format_description'' res_format res_value
                                    else res_value)
                   in and_then (payload_set_inner ''resources'' (RESOURCE_KEY rc)
                                  (PDict res_value) cy) (\<lambda>cy.
                        Inr (True, cy))))
            else Inr (has_resource, cy)))"

fun resources_loop :: "resources_check list \<Rightarrow> bool \<times> cycle \<Rightarrow> exn + bool \<times> cycle" where
  "resources_loop [] hc = Inr hc"
| "resources_loop (rc # rest) hc = and_then (resources_step rc hc) (resources_loop rest)"

definition resources_meta :: "collector \<Rightarrow> cycle \<Rightarrow> exn + cycle" where
  "resources_meta c cy =
     and_then (subscript (agentConfig c) ''api_key'') (\<lambda>api_key.
     and_then (payload_item cy ''internalHostname'') (\<lambda>host.
       payload_set_inner ''resources'' ''meta''
         (PDict [(''api_key'', api_key), (''host'', host)]) cy))"

definition run_resources_checks :: "collector \<Rightarrow> cycle \<Rightarrow> exn + cycle" where
  "run_resources_checks c cy =
     (if os c \<noteq> ''windows''
      then and_then (resources_loop (resources_checks c) (False, cy)) (\<lambda>(has_resource, cy).
             if has_resource then resources_meta c cy else Inr cy)
      else Inr cy)"

fun run_metrics_checks :: "metrics_check list \<Rightarrow> cycle \<Rightarrow> exn + cycle" where
  "run_metrics_checks [] cy = Inr cy"
| "run_metrics_checks (metrics_check # rest) cy =
     (let cy = emits [Invoke (mc_module metrics_check)] cy in
      and_then (mc_check metrics_check) (\<lambda>res.
        if truthy res
        then and_then (py_iter res) (\<lambda>ms.
               run_metrics_checks rest (cy\<lparr>metrics := metrics cy @ ms\<rparr>))
        else run_metrics_checks rest cy))"

text \<open>Everything of \<^verbatim>\<open>run\<close> between the payload and the checks.d loop.\<close>

definition collect :: "world \<Rightarrow> collector \<Rightarrow> cycle \<Rightarrow> exn + cycle" where
  "collect w c cy =
     and_then (system_checks w c cy) (\<lambda>cy.
     and_then (old_style_checks w cy) (\<lambda>cy.
     and_then (run_event_checks (event_checks c) cy) (\<lambda>cy.
     and_then (run_resources_checks c cy) (\<lambda>cy.
     run_metrics_checks (metrics_checks c) cy))))"

subsection \<open>checks.d checks\<close>

text \<open>
  The \<^verbatim>\<open>except Exception\<close> clause of the loop body followed by the construction of the
  status: the three local variables hold whatever the \<^verbatim>\<open>try\<close> block had assigned when it
  was left.
\<close>

definition check_raised ::
  "checkd \<Rightarrow> pyval \<Rightarrow> pyval \<Rightarrow> pyval \<Rightarrow> cycle \<Rightarrow> check_status \<times> cycle" where
  "check_raised check instance_statuses metric_count event_count cy =
     (CheckStatus (chk_name check) instance_statuses metric_count event_count,
      emits [Log ''exception'' ''Error running check %s'' [PStr (chk_name check)]] cy)"

text \<open>The append-or-create merge of a check's events under the check's name.\<close>

definition merge_check_events :: "string \<Rightarrow> pyval \<Rightarrow> cycle \<Rightarrow> exn + cycle" where
  "merge_check_events name current_check_events cy =
     (if truthy current_check_events
      then (case map_of (events cy) name of
              None \<Rightarrow> Inr (cy\<lparr>events := AList.update name current_check_events (events cy)\<rparr>)
            | Some old \<Rightarrow>
                and_then (py_iadd old current_check_events) (\<lambda>new.
                  Inr (cy\<lparr>events := AList.update name new (events cy)\<rparr>)))
      else Inr cy)"

text \<open>The body of the loop for one check, after the test of \<^verbatim>\<open>continue_running\<close>.\<close>

definition run_check_d :: "checkd \<Rightarrow> cycle \<Rightarrow> check_status \<times> cycle" where
  "run_check_d check cy =
     (let cy = emits [Log ''info'' ''Running check %s'' [PStr (chk_name check)],
                      Invoke (chk_name check)] cy
      in case chk_run check of
           Inl e \<Rightarrow> check_raised check (PList []) (PInt 0) (PInt 0) cy
         | Inr instance_statuses \<Rightarrow>
       (case chk_get_metrics check of
           Inl e \<Rightarrow> check_raised check instance_statuses (PInt 0) (PInt 0) cy
         | Inr current_check_metrics \<Rightarrow>
       (case chk_get_events check of
           Inl e \<Rightarrow> check_raised check instance_statuses (PInt 0) (PInt 0) cy
         | Inr current_check_events \<Rightarrow>
       (case py_iter current_check_metrics of
           Inl e \<Rightarrow> check_raised check instance_statuses (PInt 0) (PInt 0) cy
         | Inr ms \<Rightarrow>
       (let cy = cy\<lparr>metrics := metrics cy @ ms\<rparr> in
        case merge_check_events (chk_name check) current_check_events cy of
           Inl e \<Rightarrow> check_raised check instance_statuses (PInt 0) (PInt 0) cy
         | Inr cy \<Rightarrow>
       (case py_len current_check_metrics of
           Inl e \<Rightarrow> check_raised check instance_statuses (PInt 0) (PInt 0) cy
         | Inr metric_count \<Rightarrow>
       (case py_len current_check_events of
           Inl e \<Rightarrow> check_raised check instance_statuses (PInt metric_count) (PInt 0) cy
         | Inr event_count \<Rightarrow>
             (CheckStatus (chk_name check) instance_statuses
                (PInt metric_count) (PInt event_count), cy))))))))"

text \<open>
  The loop. The result says whether the loop left \<^verbatim>\<open>run\<close> through its \<^verbatim>\<open>return\<close>, and
  gives the flag, the statuses and the cycle at that point.
\<close>

fun run_checks_d ::
  "checkd list \<Rightarrow> bool \<Rightarrow> check_status list \<Rightarrow> cycle
     \<Rightarrow> bool \<times> bool \<times> check_status list \<times> cycle" where
  "run_checks_d [] continue check_statuses cy = (False, continue, check_statuses, cy)"
| "run_checks_d (check # rest) continue check_statuses cy =
     (if \<not> continue then (True, continue, check_statuses, cy)
      else (let (check_status, cy) = run_check_d check cy
            in run_checks_d rest (continue \<and> \<not> chk_stops check)
                 (check_statuses @ [check_status]) cy))"

text \<open>
  The loop over the checks that failed to initialise. \<^verbatim>\<open>iteritems\<close> exists on a
  dictionary only; the result \<open>None\<close> is the \<^verbatim>\<open>return\<close> inside the loop.
\<close>

fun init_failed_loop ::
  "pydict \<Rightarrow> bool \<Rightarrow> check_status list \<Rightarrow> exn + check_status list option" where
  "init_failed_loop [] continue check_statuses = Inr (Some check_statuses)"
| "init_failed_loop ((check_name, info) # rest) continue check_statuses =
     (if \<not> continue then Inr None
      else and_then (py_subscript info ''error'') (\<lambda>err.
           and_then (py_subscript info ''traceback'') (\<lambda>tb.
             init_failed_loop rest continue
               (check_statuses @ [CheckStatus_init_failed check_name err tb]))))"

definition init_failed_statuses ::
  "pyval \<Rightarrow> bool \<Rightarrow> check_status list \<Rightarrow> exn + check_status list option" where
  "init_failed_statuses failed continue check_statuses =
     (case failed of
        PDict d \<Rightarrow> init_failed_loop (AList.clearjunk d) continue check_statuses
      | _ \<Rightarrow> Inl (AttributeError ''iteritems''))"

section \<open>Emitting\<close>

text \<open>
  \<^verbatim>\<open>_emit\<close>: the loop with the flag, the statuses and the effects so far; the flag can
  fall while an emitter runs.
\<close>

fun emit_loop ::
  "emitter list \<Rightarrow> pydict \<Rightarrow> bool \<Rightarrow> emitter_status list \<Rightarrow> effect list
     \<Rightarrow> emitter_status list \<times> bool \<times> effect list" where
  "emit_loop [] p continue statuses tr = (statuses, continue, tr)"
| "emit_loop (emitter # rest) p continue statuses tr =
     (if \<not> continue then (statuses, continue, tr)
      else (let name = em_name emitter;
                tr = tr @ [EmitterCall name p];
                continue = (continue \<and> \<not> em_stops emitter)
            in case em_raises emitter of
                 None \<Rightarrow> emit_loop rest p continue (statuses @ [EmitterStatus name None]) tr
               | Some e \<Rightarrow>
                   emit_loop rest p continue (statuses @ [EmitterStatus name (Some e)])
                     (tr @ [Log ''exception'' ''Error running emitter: %s'' [PStr name]])))"

definition emit :: "pydict \<Rightarrow> collector \<Rightarrow> emitter_status list \<times> collector \<times> effect list" where
  "emit p c =
     (let (statuses, continue, tr) = emit_loop (emitters c) p (continue_running c) [] []
      in (statuses, c\<lparr>continue_running := continue\<rparr>, tr))"

section \<open>A collection run\<close>

text \<open>
  How a call of \<^verbatim>\<open>run\<close> ends: an exception leaves it, or it returns. The two ways of
  returning are kept apart: \<open>Stopped\<close> is the \<^verbatim>\<open>return\<close> inside one of the two loops,
  \<open>Completed\<close> the end of the body, with the payload that was handed to \<^verbatim>\<open>_emit\<close>.
  Both carry the effects of the call.
\<close>

datatype run_result =
    Raised exn
  | Stopped "effect list"
  | Completed pydict "effect list"

definition FLUSH_LOGGING_PERIOD :: int where "FLUSH_LOGGING_PERIOD = 10"
definition FLUSH_LOGGING_INITIAL :: int where "FLUSH_LOGGING_INITIAL = 5"

text \<open>The summary lines at the end (the two rounded durations are left out of the arguments).\<close>

definition finished_log :: "collector \<Rightarrow> effect list" where
  "finished_log c =
     (if run_count c \<le> FLUSH_LOGGING_INITIAL \<or> run_count c mod FLUSH_LOGGING_PERIOD = 0
      then Log ''info'' ''Finished run #%s. Collection time: %ss. Emit time: %ss''
             [PInt (run_count c)]
           # (if run_count c = FLUSH_LOGGING_INITIAL
              then [Log ''info''
                      ''First flushes done, next flushes will be logged every %s flushes.''
                      [PInt FLUSH_LOGGING_PERIOD]]
              else [])
      else [Log ''debug'' ''Finished run #%s. Collection time: %ss. Emit time: %ss''
              [PInt (run_count c)]])"

text \<open>
  From \<^verbatim>\<open>payload['metrics'] = metrics\<close> to the end of \<^verbatim>\<open>run\<close>. Nothing reads the
  local variables after \<^verbatim>\<open>_emit\<close>, so the effects of the call are put together at the
  end: those so far, the call of the agent's own metrics check, what \<^verbatim>\<open>_emit\<close> did,
  the call of \<^verbatim>\<open>persist\<close> (logged when it raises), the summary.
\<close>

definition finish ::
  "world \<Rightarrow> collector \<Rightarrow> check_status list \<Rightarrow> cycle \<Rightarrow> run_result \<times> collector" where
  "finish w c check_statuses cy =
     (let cy = cy\<lparr>payload := AList.update ''events'' EventsRef
                                (AList.update ''metrics'' MetricsRef (payload cy))\<rparr>
      in case and_then (w_agent_metrics w) py_iter of
           Inl e \<Rightarrow> (Raised e, c)
         | Inr ms \<Rightarrow>
             (let cy = cy\<lparr>metrics := metrics cy @ ms\<rparr>;
                  p = view cy;
                  (emitter_statuses, c, emitted) = emit p c;
                  c = c\<lparr>emit_duration := PFloat (w_emit_duration w)\<rparr>;
                  persisted =
                    PersistCall check_statuses emitter_statuses (metadata_cache c)
                    # (case w_persist w of
                         None \<Rightarrow> []
                       | Some e \<Rightarrow> [Log ''exception'' ''Error persisting collector status'' []])
              in (Completed p
                    (trace cy @ Invoke ''agent_metrics'' # emitted @ persisted @ finished_log c),
                  c)))"

text \<open>
  \<^verbatim>\<open>run(self, checksd=None, start_event=True)\<close> in three parts. The first goes from
  the increment of the counter to the custom metrics checks; on both outcomes it gives
  the collector as the assignments made so far have left it. \<open>with_checksd\<close> is the
  \<^verbatim>\<open>if checksd:\<close> block.
\<close>

definition with_checksd :: "checksd option \<Rightarrow> collector \<Rightarrow> collector" where
  "with_checksd checksd_arg c =
     (case checksd_arg of
        None \<Rightarrow> c
      | Some d \<Rightarrow> c\<lparr>initialized_checks_d := initialized_checks d,
                     init_failed_checks_d := init_failed_checks d\<rparr>)"

definition prologue ::
  "checksd option \<Rightarrow> bool \<Rightarrow> world \<Rightarrow> collector \<Rightarrow> (exn + cycle) \<times> collector" where
  "prologue checksd_arg start_event w c =
     (let c = c\<lparr>run_count := run_count c + 1\<rparr>;
          started = Log ''debug'' ''Starting collection run #%s'' [PInt (run_count c)]
      in case build_payload start_event w c of
           (Inl e, c) \<Rightarrow> (Inl e, c)
         | (Inr cy, c) \<Rightarrow>
             (let cy = cy\<lparr>trace := started # trace cy\<rparr>;
                  c = with_checksd checksd_arg c
              in (collect w c cy, c)))"

text \<open>The last part: the loop over the checks that failed to initialise, and the rest.\<close>

definition epilogue ::
  "world \<Rightarrow> collector \<Rightarrow> check_status list \<Rightarrow> cycle \<Rightarrow> run_result \<times> collector" where
  "epilogue w c check_statuses cy =
     (case init_failed_statuses (init_failed_checks_d c) (continue_running c) check_statuses of
        Inl e \<Rightarrow> (Raised e, c)
      | Inr None \<Rightarrow> (Stopped (trace cy), c)
      | Inr (Some check_statuses) \<Rightarrow> finish w c check_statuses cy)"

definition run :: "checksd option \<Rightarrow> bool \<Rightarrow> world \<Rightarrow> collector \<Rightarrow> run_result \<times> collector" where
  "run checksd_arg start_event w c =
     (case prologue checksd_arg start_event w c of
        (Inl e, c) \<Rightarrow> (Raised e, c)
      | (Inr cy, c) \<Rightarrow>
          (case run_checks_d (initialized_checks_d c) (continue_running c) [] cy of
             (returned, continue, check_statuses, cy) \<Rightarrow>
               (let c = c\<lparr>continue_running := continue\<rparr> in
                if returned then (Stopped (trace cy), c)
                else epilogue w c check_statuses cy)))"

text \<open>
  \<^verbatim>\<open>stop\<close>: the flag falls and every initialised check is told to stop; the result lists
  the checks that were told.
\<close>

definition stop :: "collector \<Rightarrow> collector \<times> string list" where
  "stop c = (c\<lparr>continue_running := False\<rparr>, map chk_name (initialized_checks_d c))"

section \<open>Constructing a collector\<close>

text \<open>
  \<^verbatim>\<open>int(x)\<close> as \<^verbatim>\<open>__init__\<close> applies it to the configured metadata interval: numbers
  are truncated towards zero; a string is stripped of surrounding whitespace and read as
  an optional sign and decimal digits.
\<close>

definition whitespace :: "char \<Rightarrow> bool" where
  "whitespace ch = (of_char ch \<in> {9, 10, 11, 12, 13, 32 :: nat})"

definition strip :: "string \<Rightarrow> string" where
  "strip s = rev (dropWhile whitespace (rev (dropWhile whitespace s)))"

fun digits_value :: "string \<Rightarrow> nat \<Rightarrow> nat option" where
  "digits_value [] acc = Some acc"
| "digits_value (ch # rest) acc =
     (let n = (of_char ch :: nat) in
      if 48 \<le> n \<and> n \<le> 57 then digits_value rest (10 * acc + (n - 48)) else None)"

definition int_of_string :: "string \<Rightarrow> exn + int" where
  "int_of_string s =
     (let t = strip s;
          (neg, ds) = (case t of
                         ch # rest \<Rightarrow> if ch = CHR ''-'' then (True, rest)
                                      else if ch = CHR ''+'' then (False, rest)
                                      else (False, t)
                       | [] \<Rightarrow> (False, t))
      in if ds = [] then Inl ValueError
         else (case digits_value ds 0 of
                 None \<Rightarrow> Inl ValueError
               | Some n \<Rightarrow> Inr (if neg then - int n else int n)))"

fun py_int :: "pyval \<Rightarrow> exn + int" where
  "py_int (PInt i) = Inr i"
| "py_int (PBool b) = Inr (if b then 1 else 0)"
| "py_int (PFloat r) = Inr (if 0 \<le> r then \<lfloor>r\<rfloor> else \<lceil>r\<rceil>)"
| "py_int (PStr s) = int_of_string s"
| "py_int _ = Inl TypeError"

text \<open>
  \<^verbatim>\<open>__init__\<close>. The operating system name, the clock and the check objects it creates
  are arguments: \<open>custom\<close> is the list of custom checks whose modules loaded (a module
  that fails to load is logged and left out), \<open>event\<close> and \<open>res\<close> the event and resources
  checks. The attributes that \<^verbatim>\<open>run\<close> never reads are left out.
\<close>

definition Collector_init ::
  "pydict \<Rightarrow> emitter list \<Rightarrow> pyval \<Rightarrow> string \<Rightarrow> real
     \<Rightarrow> metrics_check list \<Rightarrow> event_check list \<Rightarrow> resources_check list \<Rightarrow> exn + collector" where
  "Collector_init config ems systemStats get_os now custom event res =
     (let config = AList.update ''system_stats'' systemStats config in
      and_then (py_int (case map_of config ''metadata_interval'' of
                          None \<Rightarrow> PInt (10 * 60) | Some v \<Rightarrow> v)) (\<lambda>interval.
        Inr \<lparr>emit_duration = PNone,
             agentConfig = config,
             os = get_os,
             emitters = ems,
             metadata_interval = interval,
             metadata_start = now,
             run_count = 0,
             continue_running = True,
             metadata_cache = PNone,
             initialized_checks_d = [],
             init_failed_checks_d = PList [],
             metrics_checks = custom,
             event_checks = event,
             resources_checks = res\<rparr>))"

section \<open>A concrete host\<close>

text \<open>
  A Linux host whose checks all report nothing, a collector in its initial state for it,
  and a few checks and emitters; the examples below vary them.
\<close>

definition quiet_world :: world where
  "quiet_world =
     \<lparr>w_time_build = 1000, w_time_meta = 1000, w_sys_version = ''2.7.3'',
      w_get_hostname_cfg = PStr ''web1'', w_get_hostname = PStr ''web1'',
      w_get_uuid = PStr ''u1'', w_get_version = ''3.2.0'',
      w_get_system_stats = PDict [(''cpuCores'', PInt 2)], w_ec2_metadata = [],
      w_socket_gethostname = Inr (PStr ''web1''), w_socket_getfqdn = Inr (PStr ''web1.lan''),
      w_unix_disk = Inr (PBool False), w_unix_load = Inr (PDict []),
      w_unix_memory = Inr (PBool False), w_unix_io = Inr (PBool False),
      w_unix_processes = Inr (PBool False), w_unix_cpu = Inr (PBool False),
      w_win32_disk = Inr (PList []), w_win32_memory = Inr (PList []),
      w_win32_cpu = Inr (PList []), w_win32_network = Inr (PList []),
      w_win32_io = Inr (PList []), w_win32_proc = Inr (PList []),
      w_ganglia = Inr PNone, w_dogstream = Inr PNone, w_ddforwarder = Inr PNone,
      w_agent_metrics = Inr (PList []), w_collect_duration = 1, w_emit_duration = 1,
      w_persist = None\<rparr>"

definition plain_config :: pydict where
  "plain_config = [(''version'', PStr ''3.2.0''), (''api_key'', PStr ''key1''), (''tags'', PNone)]"

definition fresh_collector :: "string \<Rightarrow> emitter list \<Rightarrow> collector" where
  "fresh_collector host_os ems =
     \<lparr>emit_duration = PNone,
      agentConfig = AList.update ''system_stats'' (PDict []) plain_config,
      os = host_os, emitters = ems, metadata_interval = 600, metadata_start = 0,
      run_count = 0, continue_running = True, metadata_cache = PNone,
      initialized_checks_d = [], init_failed_checks_d = PList [],
      metrics_checks = [], event_checks = [], resources_checks = []\<rparr>"

definition good_check :: "string \<Rightarrow> checkd" where
  "good_check n =
     \<lparr>chk_name = n, chk_run = Inr (PList [PStr ''ok'']),
      chk_get_metrics = Inr (PList [PStr (n @ ''.metric'')]),
      chk_get_events = Inr (PList [PStr (n @ ''.event'')]), chk_stops = False\<rparr>"

definition bad_check :: "string \<Rightarrow> checkd" where
  "bad_check n = (good_check n)\<lparr>chk_run := Inl (Failure ''boom'')\<rparr>"

definition good_emitter :: "string \<Rightarrow> emitter" where
  "good_emitter n = \<lparr>em_name = n, em_raises = None, em_stops = False\<rparr>"

definition bad_emitter :: "string \<Rightarrow> emitter" where
  "bad_emitter n = \<lparr>em_name = n, em_raises = Some (Failure ''down''), em_stops = False\<rparr>"

text \<open>A cycle that has collected nothing yet, and a set of two configured checks (the first
  raises when run) with one check that failed to load.\<close>

definition empty_cycle :: cycle where
  "empty_cycle = \<lparr>payload = [], metrics = [], events = [], resources = [], trace = []\<rparr>"

definition two_checks :: checksd where
  "two_checks =
     \<lparr>initialized_checks = [bad_check ''disk_extra'', good_check ''web''],
      init_failed_checks =
        PDict [(''bad_plugin'', PDict [(''error'', PStr ''ImportError: x''),
                                       (''traceback'', PStr ''tb'')])]\<rparr>"



section \<open>Vocabulary of the properties\<close>

text \<open>Which effects are calls of an emitter, of the persistence layer, of a check.\<close>

fun is_emitter_call :: "effect \<Rightarrow> bool" where
  "is_emitter_call (EmitterCall n p) = True"
| "is_emitter_call _ = False"

fun is_persist_call :: "effect \<Rightarrow> bool" where
  "is_persist_call (PersistCall cs es m) = True"
| "is_persist_call _ = False"

fun invoked :: "effect list \<Rightarrow> string list" where
  "invoked [] = []"
| "invoked (Invoke n # es) = n # invoked es"
| "invoked (_ # es) = invoked es"

text \<open>
  The emitters a dispatch reaches: none when the collector is stopping; otherwise all of
  them up to and including the first one during which a stop arrives.
\<close>

definition attempted :: "bool \<Rightarrow> emitter list \<Rightarrow> emitter list" where
  "attempted continue ems =
     (if continue
      then takeWhile (\<lambda>e. \<not> em_stops e) ems @ take 1 (dropWhile (\<lambda>e. \<not> em_stops e) ems)
      else [])"

text \<open>The status the dispatcher records for an emitter.\<close>

definition status_of_emitter :: "emitter \<Rightarrow> emitter_status" where
  "status_of_emitter e = EmitterStatus (em_name e) (em_raises e)"

text \<open>
  An effect list is quiet when it holds no call of an emitter and none of the persistence
  layer. A cycle extends another when its effects are those of the other followed by
  quiet ones and every key of the other's payload is still a key of its payload.
\<close>

definition quiet :: "effect list \<Rightarrow> bool" where
  "quiet es = (\<forall>x\<in>set es. \<not> is_emitter_call x \<and> \<not> is_persist_call x)"

definition extends :: "cycle \<Rightarrow> cycle \<Rightarrow> bool" where
  "extends cy cy' =
     ((\<exists>es. trace cy' = trace cy @ es \<and> quiet es)
      \<and> fst ` set (payload cy) \<subseteq> fst ` set (payload cy'))"

text \<open>
  What the status of a checks.d check must look like: it carries the check's name, and if
  the check's \<^verbatim>\<open>run()\<close> raised it has no instance results and zero counts.
\<close>

definition status_fits :: "checkd \<Rightarrow> check_status \<Rightarrow> bool" where
  "status_fits ch st =
     (cs_name st = chk_name ch
      \<and> (isl (chk_run ch) \<longrightarrow>
            st = CheckStatus (chk_name ch) (PList []) (PInt 0) (PInt 0)))"

text \<open>The checks.d checks of a cycle: those of the argument, or else the stored ones.\<close>

definition checks_of :: "checksd option \<Rightarrow> collector \<Rightarrow> checkd list" where
  "checks_of checksd_arg c =
     (case checksd_arg of None \<Rightarrow> initialized_checks_d c | Some d \<Rightarrow> initialized_checks d)"

text \<open>The payload at the end of a cycle whose own metrics check returned \<open>ms\<close>.\<close>

definition final_payload :: "cycle \<Rightarrow> pyval list \<Rightarrow> pydict" where
  "final_payload cy ms =
     view (cy\<lparr>payload := AList.update ''events'' EventsRef
                            (AList.update ''metrics'' MetricsRef (payload cy)),
              metrics := metrics cy @ ms\<rparr>)"

text \<open>What a cycle did and what it sent, read off its result.\<close>

fun effects_of :: "run_result \<Rightarrow> effect list" where
  "effects_of (Raised e) = []"
| "effects_of (Stopped tr) = tr"
| "effects_of (Completed p tr) = tr"

fun payload_of :: "run_result \<Rightarrow> pydict" where
  "payload_of (Completed p tr) = p"
| "payload_of _ = []"



section \<open>Basic facts\<close>

lemma map_of_view: "map_of (view cy) k = map_option (deref cy) (map_of (payload cy) k)"
  by (simp add: view_def map_of_map)

lemma keys_view: "fst ` set (view cy) = fst ` set (payload cy)"
  by (force simp: view_def)

lemma and_then_Inr_iff:
  "and_then r f = Inr y \<longleftrightarrow> (\<exists>v. r = Inr v \<and> f v = Inr y)"
  by (cases r) (simp_all add: and_then_def)

lemma and_then_Inl_iff:
  "and_then r f = Inl e \<longleftrightarrow> r = Inl e \<or> (\<exists>v. r = Inr v \<and> f v = Inl e)"
  by (cases r) (simp_all add: and_then_def)

lemma and_then_simps [simp]:
  "and_then (Inl e) f = Inl e"
  "and_then (Inr v) f = f v"
  by (simp_all add: and_then_def)

section \<open>The payload of the first cycle\<close>



text \<open>The unfoldings that evaluate a cycle on a concrete collector.\<close>

lemmas run_eval =
  run_def prologue_def epilogue_def finish_def with_checksd_def build_payload_def base_payload_def
  add_startup_def add_metadata_def should_send_metadata_def startup_event_def payload_item_def
  payload_set_inner_def get_metadata_def is_first_run_def subscript_def dict_get_def set_key_def
  emits_def deref_def view_def update_payload_def collect_def system_checks_def
  unix_system_checks_def unix_disk_def unix_load_def unix_memory_def unix_io_def
  unix_processes_def unix_cpu_def win32_system_checks_def old_style_checks_def
  dogstream_data_def merge_dogstream_events_def run_resources_checks_def resources_step_def
  resources_meta_def run_check_d_def check_raised_def merge_check_events_def
  init_failed_statuses_def emit_def finished_log_def FLUSH_LOGGING_INITIAL_def
  FLUSH_LOGGING_PERIOD_def CheckStatus_def CheckStatus_init_failed_def EmitterStatus_def
  Let_def quiet_world_def fresh_collector_def plain_config_def good_check_def bad_check_def
  good_emitter_def bad_emitter_def



section \<open>The emitter dispatcher\<close>

lemma attempted_Nil: "attempted cr [] = []"
  by (simp add: attempted_def)

lemma attempted_Cons:
  "attempted cr (e # es) = (if cr then e # attempted (\<not> em_stops e) es else [])"
  by (simp add: attempted_def)

lemma emit_loop_char:
  "\<exists>cr' tr'. emit_loop ems p cr sts tr = (sts @ map status_of_emitter (attempted cr ems), cr', tr @ tr')
     \<and> filter is_emitter_call tr' = map (\<lambda>e. EmitterCall (em_name e) p) (attempted cr ems)
     \<and> (\<forall>e\<in>set (attempted cr ems). em_raises e \<noteq> None \<longrightarrow>
           Log ''exception'' ''Error running emitter: %s'' [PStr (em_name e)] \<in> set tr')"
proof (induction ems arbitrary: cr sts tr)
  case Nil
  show ?case by (simp add: attempted_Nil)
next
  case (Cons e es)
  show ?case
  proof (cases cr)
    case False
    then show ?thesis by (auto simp add: attempted_Cons)
  next
    case True
    show ?thesis
    proof (cases "em_raises e")
      case None
      from Cons.IH [of "\<not> em_stops e" "sts @ [EmitterStatus (em_name e) None]"
          "tr @ [EmitterCall (em_name e) p]"]
      obtain cr' tr' where
        "emit_loop es p (\<not> em_stops e) (sts @ [EmitterStatus (em_name e) None])
           (tr @ [EmitterCall (em_name e) p])
         = ((sts @ [EmitterStatus (em_name e) None]) @ map status_of_emitter (attempted (\<not> em_stops e) es),
            cr', (tr @ [EmitterCall (em_name e) p]) @ tr')"
        and "filter is_emitter_call tr' = map (\<lambda>e. EmitterCall (em_name e) p) (attempted (\<not> em_stops e) es)"
        and "\<forall>x\<in>set (attempted (\<not> em_stops e) es). em_raises x \<noteq> None \<longrightarrow>
           Log ''exception'' ''Error running emitter: %s'' [PStr (em_name x)] \<in> set tr'"
        by blast
      with True None show ?thesis
        by (intro exI [of _ cr'] exI [of _ "EmitterCall (em_name e) p # tr'"])
           (simp add: attempted_Cons status_of_emitter_def Let_def)
    next
      case (Some x)
      from Cons.IH [of "\<not> em_stops e" "sts @ [EmitterStatus (em_name e) (Some x)]"
          "tr @ [EmitterCall (em_name e) p] @ [Log ''exception'' ''Error running emitter: %s'' [PStr (em_name e)]]"]
      obtain cr' tr' where
        "emit_loop es p (\<not> em_stops e) (sts @ [EmitterStatus (em_name e) (Some x)])
           (tr @ [EmitterCall (em_name e) p] @ [Log ''exception'' ''Error running emitter: %s'' [PStr (em_name e)]])
         = ((sts @ [EmitterStatus (em_name e) (Some x)]) @ map status_of_emitter (attempted (\<not> em_stops e) es),
            cr', (tr @ [EmitterCall (em_name e) p] @ [Log ''exception'' ''Error running emitter: %s'' [PStr (em_name e)]]) @ tr')"
        and "filter is_emitter_call tr' = map (\<lambda>e. EmitterCall (em_name e) p) (attempted (\<not> em_stops e) es)"
        and "\<forall>x\<in>set (attempted (\<not> em_stops e) es). em_raises x \<noteq> None \<longrightarrow>
           Log ''exception'' ''Error running emitter: %s'' [PStr (em_name x)] \<in> set tr'"
        by blast
      with True Some show ?thesis
        by (intro exI [of _ cr'] exI [of _ "EmitterCall (em_name e) p # Log ''exception'' ''Error running emitter: %s'' [PStr (em_name e)] # tr'"])
           (simp add: attempted_Cons status_of_emitter_def Let_def)
    qed
  qed
qed

lemma attempted_all:
  "\<forall>e\<in>set ems. \<not> em_stops e \<Longrightarrow> attempted True ems = ems"
  by (induction ems) (simp_all add: attempted_Nil attempted_Cons)

text \<open>
  C8. \<^verbatim>\<open>_emit\<close> calls the emitters in the configured order, each with the payload; an
  emitter that raises is logged and recorded with the exception, one that returns is
  recorded without, and in both cases the next emitter is called. The statuses come in
  the order of the calls, one per emitter called. The emitters called are the configured
  ones up to a stop: all of them when the collector is not stopping and no stop arrives.
\<close>

theorem emitters_isolated:
  assumes "emit p c = (statuses, c', tr)"
  shows "statuses = map status_of_emitter (attempted (continue_running c) (emitters c))
     \<and> filter is_emitter_call tr
         = map (\<lambda>e. EmitterCall (em_name e) p) (attempted (continue_running c) (emitters c))
     \<and> (\<forall>e\<in>set (attempted (continue_running c) (emitters c)). em_raises e \<noteq> None \<longrightarrow>
           Log ''exception'' ''Error running emitter: %s'' [PStr (em_name e)] \<in> set tr)
     \<and> (continue_running c \<and> (\<forall>e\<in>set (emitters c). \<not> em_stops e) \<longrightarrow>
           attempted (continue_running c) (emitters c) = emitters c)"
  using assms emit_loop_char [of "emitters c" p "continue_running c" "[]" "[]"]
  by (auto simp: emit_def attempted_all split: prod.splits)


theorem emitters_isolated_witness:
  "fst (emit [] (fresh_collector ''linux'' [good_emitter ''a'', bad_emitter ''b'', good_emitter ''c'']))
     = [EmitterStatus ''a'' None, EmitterStatus ''b'' (Some (Failure ''down'')),
        EmitterStatus ''c'' None]
   \<and> Log ''exception'' ''Error running emitter: %s'' [PStr ''b'']
       \<in> set (snd (snd (emit [] (fresh_collector ''linux''
                  [good_emitter ''a'', bad_emitter ''b'', good_emitter ''c'']))))"
  using emitters_isolated [of "[]"
      "fresh_collector ''linux'' [good_emitter ''a'', bad_emitter ''b'', good_emitter ''c'']"
      "fst (emit [] (fresh_collector ''linux''
              [good_emitter ''a'', bad_emitter ''b'', good_emitter ''c'']))"
      "fst (snd (emit [] (fresh_collector ''linux''
              [good_emitter ''a'', bad_emitter ''b'', good_emitter ''c''])))"
      "snd (snd (emit [] (fresh_collector ''linux''
              [good_emitter ''a'', bad_emitter ''b'', good_emitter ''c''])))"]
  by (simp add: fresh_collector_def good_emitter_def bad_emitter_def attempted_def
        status_of_emitter_def)

section \<open>When the host metadata is sent\<close>

lemma get_metadata_frame [simp]:
  "get_metadata w (c\<lparr>metadata_start := t\<rparr>) = get_metadata w c"
  "get_metadata w (c\<lparr>run_count := n\<rparr>) = get_metadata w c"
  by (simp_all add: get_metadata_def Let_def cong: if_cong)

lemma base_payload_meta:
  "base_payload w c = Inr cy \<Longrightarrow> map_of (payload cy) ''meta'' = None
     \<and> map_of (payload cy) ''events'' = Some EventsRef
     \<and> map_of (payload cy) ''internalHostname'' \<noteq> None"
  by (auto simp: base_payload_def and_then_Inr_iff)

lemma add_startup_meta:
  "add_startup se w c cy = Inr cy' \<Longrightarrow> map_of (payload cy) ''events'' = Some EventsRef \<Longrightarrow>
     map_of (payload cy') ''meta'' = map_of (payload cy) ''meta''"
  by (auto simp: add_startup_def and_then_Inr_iff payload_set_inner_def set_key_def update_conv'
      Let_def split: if_splits)





section \<open>Every phase extends the cycle\<close>


lemma quiet_simps [simp]:
  "quiet []"
  "quiet (Log l m a # es) = quiet es"
  "quiet (Invoke n # es) = quiet es"
  "quiet (es @ fs) = (quiet es \<and> quiet fs)"
  by (auto simp: quiet_def)

lemma extends_refl [simp]: "extends cy cy"
  by (simp add: extends_def)

lemma extends_trans:
  assumes "extends cy cy1" and "extends cy1 cy2"
  shows "extends cy cy2"
proof -
  from assms(1) obtain es where 1: "trace cy1 = trace cy @ es" "quiet es"
    and k1: "fst ` set (payload cy) \<subseteq> fst ` set (payload cy1)"
    unfolding extends_def by blast
  from assms(2) obtain fs where 2: "trace cy2 = trace cy1 @ fs" "quiet fs"
    and k2: "fst ` set (payload cy1) \<subseteq> fst ` set (payload cy2)"
    unfolding extends_def by blast
  from 1 2 have "trace cy2 = trace cy @ (es @ fs)" and "quiet (es @ fs)" by simp_all
  moreover from k1 k2 have "fst ` set (payload cy) \<subseteq> fst ` set (payload cy2)" by simp
  ultimately show ?thesis unfolding extends_def by blast
qed

lemma extends_emits [simp]: "quiet es \<Longrightarrow> extends cy cy1 \<Longrightarrow> extends cy (emits es cy1)"
  by (auto simp: extends_def emits_def)

lemma extends_set_key [simp]: "extends cy cy1 \<Longrightarrow> extends cy (set_key k v cy1)"
  by (auto simp: extends_def set_key_def dom_update)

lemma extends_fields [simp]:
  "extends cy cy1 \<Longrightarrow> extends cy (cy1\<lparr>metrics := m\<rparr>)"
  "extends cy cy1 \<Longrightarrow> extends cy (cy1\<lparr>events := ev\<rparr>)"
  "extends cy cy1 \<Longrightarrow> extends cy (cy1\<lparr>resources := r\<rparr>)"
  by (auto simp: extends_def)

lemma extends_rebind [simp]:
  "extends cy cy1 \<Longrightarrow> extends cy (cy1\<lparr>payload := AList.update k s (payload cy1)\<rparr>)"
  by (auto simp: extends_def dom_update)

lemma extends_merge [simp]:
  "extends cy cy1 \<Longrightarrow> extends cy (cy1\<lparr>payload := AList.merge (payload cy1) d\<rparr>)"
  by (simp add: extends_def dom_merge le_supI1)

lemma extends_update_payload:
  "update_payload x cy1 = Inr cy2 \<Longrightarrow> extends cy cy1 \<Longrightarrow> extends cy cy2"
  by (auto simp: update_payload_def and_then_Inr_iff)

lemma extends_payload_set_inner:
  "payload_set_inner k j v cy1 = Inr cy2 \<Longrightarrow> extends cy cy1 \<Longrightarrow> extends cy cy2"
  by (auto simp: payload_set_inner_def split: option.splits slot.splits pyval.splits)

lemma extends_extend_each:
  "extend_each rs cy1 = (r, cy2) \<Longrightarrow> extends cy cy1 \<Longrightarrow> extends cy cy2"
  by (induction rs cy1 rule: extend_each.induct) (auto simp: Let_def split: sum.splits)

lemma extends_win32:
  "extends cy cy1 \<Longrightarrow> extends cy (win32_system_checks w cy1)"
  by (auto simp: win32_system_checks_def simp del: extend_each.simps
      split: prod.splits option.splits dest: extends_extend_each)

lemma extends_unix_disk:
  "unix_disk w cy1 = Inr cy2 \<Longrightarrow> extends cy cy1 \<Longrightarrow> extends cy cy2"
  by (auto simp: unix_disk_def and_then_Inr_iff Let_def split: if_splits)

lemma extends_unix_load:
  "unix_load w cy1 = Inr cy2 \<Longrightarrow> extends cy cy1 \<Longrightarrow> extends cy cy2"
  by (auto simp: unix_load_def and_then_Inr_iff Let_def update_payload_def)

lemma extends_unix_memory:
  "unix_memory w cy1 = Inr cy2 \<Longrightarrow> extends cy cy1 \<Longrightarrow> extends cy cy2"
  by (auto simp: unix_memory_def and_then_Inr_iff Let_def update_payload_def split: if_splits)

lemma extends_unix_io:
  "unix_io w cy1 = Inr cy2 \<Longrightarrow> extends cy cy1 \<Longrightarrow> extends cy cy2"
  by (auto simp: unix_io_def and_then_Inr_iff Let_def split: if_splits)

lemma extends_unix_processes:
  "unix_processes w cy1 = Inr cy2 \<Longrightarrow> extends cy cy1 \<Longrightarrow> extends cy cy2"
  by (auto simp: unix_processes_def and_then_Inr_iff Let_def update_payload_def)

lemma extends_unix_cpu:
  "unix_cpu w cy1 = Inr cy2 \<Longrightarrow> extends cy cy1 \<Longrightarrow> extends cy cy2"
  by (auto simp: unix_cpu_def and_then_Inr_iff Let_def update_payload_def split: if_splits)

lemma extends_unix:
  assumes "unix_system_checks w cy1 = Inr cy2" and "extends cy cy1"
  shows "extends cy cy2"
proof -
  from assms(1) obtain a where a: "unix_disk w cy1 = Inr a"
    and ra: "and_then (unix_load w a) (\<lambda>cy.
              and_then (unix_memory w cy) (\<lambda>cy.
              and_then (unix_io w cy) (\<lambda>cy.
              and_then (unix_processes w cy) (\<lambda>cy. unix_cpu w cy)))) = Inr cy2"
    unfolding unix_system_checks_def by (auto simp: and_then_Inr_iff)
  from ra obtain b where b: "unix_load w a = Inr b"
    and rb: "and_then (unix_memory w b) (\<lambda>cy.
              and_then (unix_io w cy) (\<lambda>cy.
              and_then (unix_processes w cy) (\<lambda>cy. unix_cpu w cy))) = Inr cy2"
    by (auto simp: and_then_Inr_iff)
  from rb obtain m where m: "unix_memory w b = Inr m"
    and rm: "and_then (unix_io w m) (\<lambda>cy.
              and_then (unix_processes w cy) (\<lambda>cy. unix_cpu w cy)) = Inr cy2"
    by (auto simp: and_then_Inr_iff)
  from rm obtain i where i: "unix_io w m = Inr i"
    and ri: "and_then (unix_processes w i) (\<lambda>cy. unix_cpu w cy) = Inr cy2"
    by (auto simp: and_then_Inr_iff)
  from ri obtain p where p: "unix_processes w i = Inr p" and c: "unix_cpu w p = Inr cy2"
    by (auto simp: and_then_Inr_iff)
  note extends_unix_disk [OF a assms(2)]
  note extends_unix_load [OF b this]
  note extends_unix_memory [OF m this]
  note extends_unix_io [OF i this]
  note extends_unix_processes [OF p this]
  note extends_unix_cpu [OF c this]
  then show ?thesis .
qed

lemma extends_system_checks:
  "system_checks w c cy1 = Inr cy2 \<Longrightarrow> extends cy cy1 \<Longrightarrow> extends cy cy2"
  by (auto simp: system_checks_def extends_win32 extends_unix split: if_splits)



lemma and_thenE:
  assumes "and_then r f = Inr y"
  obtains v where "r = Inr v" and "f v = Inr y"
  using assms by (cases r) simp_all

lemma extends_merge_dogstream_events:
  "merge_dogstream_events ev cy1 = Inr cy2 \<Longrightarrow> extends cy cy1 \<Longrightarrow> extends cy cy2"
  unfolding merge_dogstream_events_def
  by (elim and_thenE) (auto split: if_splits pyval.splits elim!: and_thenE)

lemma extends_dogstream_data:
  "dogstream_data d cy1 = Inr cy2 \<Longrightarrow> extends cy cy1 \<Longrightarrow> extends cy cy2"
  unfolding dogstream_data_def
  by (auto split: if_splits pyval.splits prod.splits elim!: and_thenE)
     ((erule extends_update_payload extends_merge_dogstream_events | simp)+)

lemma extends_old_style_checks:
  "old_style_checks w cy1 = Inr cy2 \<Longrightarrow> extends cy cy1 \<Longrightarrow> extends cy cy2"
  unfolding old_style_checks_def Let_def
  by (elim and_thenE; auto split: if_splits)
     ((erule extends_dogstream_data | rule extends_set_key | simp)+)

lemma extends_run_event_checks:
  "run_event_checks cs cy1 = Inr cy2 \<Longrightarrow> extends cy cy1 \<Longrightarrow> extends cy cy2"
  by (induction cs arbitrary: cy1) (auto simp: Let_def split: if_splits elim!: and_thenE)

lemma extends_resources_step:
  "resources_step rc (h, cy1) = Inr (h', cy2) \<Longrightarrow> extends cy cy1 \<Longrightarrow> extends cy cy2"
  unfolding resources_step_def Let_def
  by (auto split: if_splits option.splits elim!: and_thenE)
     ((erule extends_payload_set_inner | simp)+)

lemma extends_resources_loop:
  "resources_loop rcs (h, cy1) = Inr (h', cy2) \<Longrightarrow> extends cy cy1 \<Longrightarrow> extends cy cy2"
proof (induction rcs arbitrary: h cy1)
  case Nil
  then show ?case by simp
next
  case (Cons rc rcs)
  from Cons.prems(1) obtain h1 cy3 where s: "resources_step rc (h, cy1) = Inr (h1, cy3)"
    and l: "resources_loop rcs (h1, cy3) = Inr (h', cy2)"
    by (auto elim!: and_thenE)
  from Cons.IH [OF l extends_resources_step [OF s Cons.prems(2)]] show ?case .
qed

lemma extends_resources_meta:
  "resources_meta c cy1 = Inr cy2 \<Longrightarrow> extends cy cy1 \<Longrightarrow> extends cy cy2"
  unfolding resources_meta_def
  by (elim and_thenE) (rule extends_payload_set_inner)

lemma extends_run_resources_checks:
  "run_resources_checks c cy1 = Inr cy2 \<Longrightarrow> extends cy cy1 \<Longrightarrow> extends cy cy2"
  unfolding run_resources_checks_def
  by (auto split: if_splits prod.splits elim!: and_thenE)
     ((erule extends_resources_meta extends_resources_loop | simp)+)

lemma extends_run_metrics_checks:
  "run_metrics_checks cs cy1 = Inr cy2 \<Longrightarrow> extends cy cy1 \<Longrightarrow> extends cy cy2"
  by (induction cs arbitrary: cy1) (auto simp: Let_def split: if_splits elim!: and_thenE)


section \<open>One checks.d check, and the loop over them\<close>


lemma extends_collect:
  "collect w c cy1 = Inr cy2 \<Longrightarrow> extends cy cy1 \<Longrightarrow> extends cy cy2"
  unfolding collect_def
  by (elim and_thenE)
     ((erule extends_run_metrics_checks extends_run_resources_checks extends_run_event_checks
         extends_old_style_checks extends_system_checks)+)

lemma extends_merge_check_events:
  "merge_check_events n ev cy1 = Inr cy2 \<Longrightarrow> extends cy cy1 \<Longrightarrow> extends cy cy2"
  by (auto simp: merge_check_events_def split: if_splits option.splits elim!: and_thenE)

lemma extends_check_raised:
  "extends cy cy1 \<Longrightarrow> extends cy (snd (check_raised ch i m e cy1))"
  by (simp add: check_raised_def)

lemma extends_run_check_d:
  "extends cy cy1 \<Longrightarrow> extends cy (snd (run_check_d ch cy1))"
  unfolding run_check_d_def Let_def
  by (auto simp: check_raised_def split: sum.splits)
     ((erule extends_merge_check_events | rule extends_emits | simp)+)

lemma run_check_d_name: "cs_name (fst (run_check_d ch cy)) = chk_name ch"
  by (simp add: run_check_d_def check_raised_def CheckStatus_def Let_def split: sum.splits)

lemma run_check_d_raised:
  "chk_run ch = Inl e \<Longrightarrow>
     run_check_d ch cy =
       (CheckStatus (chk_name ch) (PList []) (PInt 0) (PInt 0),
        emits [Log ''info'' ''Running check %s'' [PStr (chk_name ch)], Invoke (chk_name ch),
               Log ''exception'' ''Error running check %s'' [PStr (chk_name ch)]] cy)"
  by (simp add: run_check_d_def check_raised_def emits_def Let_def)

lemma run_check_d_fits: "status_fits ch (fst (run_check_d ch cy))"
  by (cases "chk_run ch")
     (simp_all add: status_fits_def run_check_d_name run_check_d_raised CheckStatus_def)

lemma merge_check_events_frame:
  "merge_check_events n ev cy1 = Inr cy2 \<Longrightarrow>
     payload cy2 = payload cy1 \<and> resources cy2 = resources cy1 \<and> trace cy2 = trace cy1
     \<and> metrics cy2 = metrics cy1"
  by (auto simp: merge_check_events_def split: if_splits option.splits elim!: and_thenE)

lemma run_check_d_frame:
  "payload (snd (run_check_d ch cy)) = payload cy
   \<and> resources (snd (run_check_d ch cy)) = resources cy"
  unfolding run_check_d_def Let_def
  by (auto simp: check_raised_def emits_def split: sum.splits dest: merge_check_events_frame)

lemma invoked_append [simp]: "invoked (es @ fs) = invoked es @ invoked fs"
  by (induction es rule: invoked.induct) simp_all

lemma run_check_d_invoked:
  "invoked (trace (snd (run_check_d ch cy))) = invoked (trace cy) @ [chk_name ch]"
  unfolding run_check_d_def Let_def
  by (auto simp: check_raised_def emits_def split: sum.splits dest: merge_check_events_frame)

lemma run_check_d_logged:
  "isl (chk_run ch) \<or> isl (chk_get_metrics ch) \<or> isl (chk_get_events ch) \<Longrightarrow>
     Log ''exception'' ''Error running check %s'' [PStr (chk_name ch)]
       \<in> set (trace (snd (run_check_d ch cy)))"
  unfolding run_check_d_def Let_def
  by (auto simp: check_raised_def emits_def split: sum.splits)



lemma run_checks_d_char:
  "run_checks_d checks cr acc cy1 = (ret, cr', sts, cy2) \<Longrightarrow>
     extends cy1 cy2 \<and> payload cy2 = payload cy1 \<and> resources cy2 = resources cy1
   \<and> (\<exists>new. sts = acc @ new \<and> list_all2 status_fits (take (length new) checks) new
        \<and> invoked (trace cy2) = invoked (trace cy1) @ map chk_name (take (length new) checks)
        \<and> (\<not> ret \<longrightarrow> length new = length checks))
   \<and> (cr' \<longrightarrow> cr) \<and> (ret \<longrightarrow> \<not> cr')"
proof (induction checks arbitrary: cr acc cy1)
  case Nil
  then show ?case by auto
next
  case (Cons ch rest)
  show ?case
  proof (cases cr)
    case False
    with Cons.prems show ?thesis by auto
  next
    case True
    obtain st cy3 where step: "run_check_d ch cy1 = (st, cy3)" by (cases "run_check_d ch cy1")
    with True Cons.prems
    have rec: "run_checks_d rest (\<not> chk_stops ch) (acc @ [st]) cy3 = (ret, cr', sts, cy2)"
      by simp
    from Cons.IH [OF rec] obtain new where ih:
      "extends cy3 cy2" "payload cy2 = payload cy3" "resources cy2 = resources cy3"
      "sts = (acc @ [st]) @ new" "list_all2 status_fits (take (length new) rest) new"
      "invoked (trace cy2) = invoked (trace cy3) @ map chk_name (take (length new) rest)"
      "\<not> ret \<longrightarrow> length new = length rest" "ret \<longrightarrow> \<not> cr'"
      by blast
    from step have st: "st = fst (run_check_d ch cy1)" and cy3: "cy3 = snd (run_check_d ch cy1)"
      by simp_all
    have e: "extends cy1 cy3" unfolding cy3 by (rule extends_run_check_d) simp
    have f: "status_fits ch st" unfolding st by (rule run_check_d_fits)
    have "sts = acc @ (st # new)" using ih(4) by simp
    moreover have "list_all2 status_fits (take (length (st # new)) (ch # rest)) (st # new)"
      using f ih(5) by simp
    moreover have "invoked (trace cy2)
        = invoked (trace cy1) @ map chk_name (take (length (st # new)) (ch # rest))"
      using ih(6) by (simp add: cy3 run_check_d_invoked)
    moreover have "\<not> ret \<longrightarrow> length (st # new) = length (ch # rest)" using ih(7) by simp
    ultimately have "\<exists>new. sts = acc @ new
        \<and> list_all2 status_fits (take (length new) (ch # rest)) new
        \<and> invoked (trace cy2) = invoked (trace cy1) @ map chk_name (take (length new) (ch # rest))
        \<and> (\<not> ret \<longrightarrow> length new = length (ch # rest))"
      by blast
    moreover have "extends cy1 cy2" using e ih(1) by (rule extends_trans)
    moreover have "payload cy2 = payload cy1" "resources cy2 = resources cy1"
      using ih(2,3) by (simp_all add: cy3 run_check_d_frame)
    ultimately show ?thesis using True ih(8) by simp
  qed
qed

lemma run_checks_d_total:
  "\<forall>ch\<in>set checks. \<not> chk_stops ch \<Longrightarrow>
     \<exists>sts cy2. run_checks_d checks True acc cy1 = (False, True, sts, cy2)"
  by (induction checks arbitrary: acc cy1) (auto split: prod.splits)

lemma run_checks_d_returned:
  "fst (run_checks_d checks cr acc cy)
     = (checks \<noteq> [] \<and> (\<not> cr \<or> (\<exists>ch\<in>set (butlast checks). chk_stops ch)))"
proof (induction checks arbitrary: cr acc cy)
  case Nil
  show ?case by simp
next
  case (Cons ch rest)
  show ?case
    by (cases cr) (auto simp: Cons.IH split: prod.splits)
qed

lemma run_checks_d_flag:
  "run_checks_d checks cr acc cy1 = (ret, cr', sts, cy2) \<Longrightarrow> \<not> cr \<or> (\<exists>ch\<in>set checks. chk_stops ch)
     \<Longrightarrow> \<not> cr'"
proof (induction checks arbitrary: cr acc cy1)
  case Nil
  then show ?case by auto
next
  case (Cons ch rest)
  show ?case
  proof (cases cr)
    case False
    with Cons.prems show ?thesis by auto
  next
    case True
    obtain st cy3 where step: "run_check_d ch cy1 = (st, cy3)" by (cases "run_check_d ch cy1")
    with True Cons.prems(1)
    have rec: "run_checks_d rest (\<not> chk_stops ch) (acc @ [st]) cy3 = (ret, cr', sts, cy2)"
      by simp
    from Cons.prems(2) True have "\<not> \<not> chk_stops ch \<or> (\<exists>x\<in>set rest. chk_stops x)" by auto
    from Cons.IH [OF rec this] show ?thesis .
  qed
qed


section \<open>What the builder and the prologue leave unchanged\<close>


lemma deref_trace [simp]: "deref (cy\<lparr>trace := t\<rparr>) s = deref cy s"
  by (cases s) (simp_all add: deref_def)

lemma view_simps [simp]:
  "view (cy\<lparr>trace := t\<rparr>) = view cy"
  "view (emits es cy) = view cy"
  by (simp_all add: view_def emits_def)

lemma should_send_metadata_frame:
  "should_send_metadata w c = (b, c1, es) \<Longrightarrow>
     quiet es \<and> c1 = c\<lparr>metadata_start := metadata_start c1\<rparr>"
  by (auto simp: should_send_metadata_def Let_def split: if_splits)

lemma add_metadata_frame:
  "add_metadata w c cy = (r, c1) \<Longrightarrow>
     continue_running c1 = continue_running c \<and> emitters c1 = emitters c
     \<and> os c1 = os c \<and> agentConfig c1 = agentConfig c \<and> run_count c1 = run_count c
     \<and> resources_checks c1 = resources_checks c \<and> event_checks c1 = event_checks c
     \<and> metrics_checks c1 = metrics_checks c
     \<and> initialized_checks_d c1 = initialized_checks_d c
     \<and> init_failed_checks_d c1 = init_failed_checks_d c
     \<and> metadata_interval c1 = metadata_interval c"
  by (auto simp: add_metadata_def should_send_metadata_def Let_def
      split: if_splits sum.splits prod.splits)

lemma build_payload_frame:
  "build_payload se w c = (r, c1) \<Longrightarrow>
     continue_running c1 = continue_running c \<and> emitters c1 = emitters c
     \<and> os c1 = os c \<and> agentConfig c1 = agentConfig c \<and> run_count c1 = run_count c
     \<and> resources_checks c1 = resources_checks c \<and> event_checks c1 = event_checks c
     \<and> metrics_checks c1 = metrics_checks c
     \<and> initialized_checks_d c1 = initialized_checks_d c
     \<and> init_failed_checks_d c1 = init_failed_checks_d c
     \<and> metadata_interval c1 = metadata_interval c"
  by (cases "and_then (base_payload w c) (add_startup se w c)")
     (auto simp: build_payload_def dest: add_metadata_frame)

lemma base_payload_cycle:
  "base_payload w c = Inr cy \<Longrightarrow>
     quiet (trace cy) \<and> metrics cy = [] \<and> resources cy = []
     \<and> map_of (payload cy) ''events'' = Some EventsRef
     \<and> map_of (payload cy) ''metrics'' = Some MetricsRef
     \<and> map_of (payload cy) ''resources'' = Some ResourcesRef"
  by (auto simp: base_payload_def elim!: and_thenE)

lemma add_startup_cycle:
  "add_startup se w c cy = Inr cy' \<Longrightarrow> map_of (payload cy) ''events'' = Some EventsRef \<Longrightarrow>
     trace cy' = trace cy \<and> metrics cy' = metrics cy \<and> resources cy' = resources cy
     \<and> map_of (payload cy') ''events'' = Some EventsRef
     \<and> map_of (payload cy') ''metrics'' = map_of (payload cy) ''metrics''
     \<and> map_of (payload cy') ''resources'' = map_of (payload cy) ''resources''"
  by (auto simp: add_startup_def payload_set_inner_def set_key_def update_conv' Let_def
      split: if_splits elim!: and_thenE)

lemma add_metadata_cycle:
  "add_metadata w c cy = (Inr cy', c1) \<Longrightarrow>
     (\<exists>es. trace cy' = trace cy @ es \<and> quiet es)
     \<and> metrics cy' = metrics cy \<and> resources cy' = resources cy \<and> events cy' = events cy
     \<and> map_of (payload cy') ''events'' = map_of (payload cy) ''events''
     \<and> map_of (payload cy') ''metrics'' = map_of (payload cy) ''metrics''
     \<and> map_of (payload cy') ''resources'' = map_of (payload cy) ''resources''"
  by (auto simp: add_metadata_def should_send_metadata_def set_key_def emits_def update_conv'
      Let_def split: if_splits sum.splits prod.splits)

lemma build_payload_cycle:
  assumes "build_payload se w c = (Inr cy, c1)"
  shows "quiet (trace cy) \<and> metrics cy = [] \<and> resources cy = []
     \<and> map_of (payload cy) ''events'' = Some EventsRef
     \<and> map_of (payload cy) ''metrics'' = Some MetricsRef
     \<and> map_of (payload cy) ''resources'' = Some ResourcesRef"
proof -
  from assms obtain cy0 cy1 where b: "base_payload w c = Inr cy0"
    and s: "add_startup se w c cy0 = Inr cy1"
    and m: "add_metadata w c cy1 = (Inr cy, c1)"
    by (auto simp: build_payload_def split: sum.splits elim!: and_thenE)
  note B = base_payload_cycle [OF b]
  from B have ev: "map_of (payload cy0) ''events'' = Some EventsRef" by simp
  note S = add_startup_cycle [OF s ev]
  note M = add_metadata_cycle [OF m]
  from B S M show ?thesis by auto
qed



lemma prologue_cases:
  assumes "prologue cd se w c = (r, c1)"
  obtains (build_raised) e where "r = Inl e"
      and "build_payload se w (c\<lparr>run_count := run_count c + 1\<rparr>) = (Inl e, c1)"
    | (built) cy0 c0 where
        "build_payload se w (c\<lparr>run_count := run_count c + 1\<rparr>) = (Inr cy0, c0)"
        and "c1 = with_checksd cd c0"
        and "r = collect w c1
                  (cy0\<lparr>trace := Log ''debug'' ''Starting collection run #%s''
                                   [PInt (run_count c + 1)] # trace cy0\<rparr>)"
  using assms
  by (auto simp: prologue_def with_checksd_def Let_def split: prod.splits sum.splits option.splits)

lemma prologue_frame:
  assumes "prologue cd se w c = (r, c1)"
  shows "continue_running c1 = continue_running c \<and> emitters c1 = emitters c
     \<and> os c1 = os c \<and> agentConfig c1 = agentConfig c \<and> run_count c1 = run_count c + 1
     \<and> resources_checks c1 = resources_checks c \<and> event_checks c1 = event_checks c
     \<and> metrics_checks c1 = metrics_checks c
     \<and> metadata_interval c1 = metadata_interval c"
  using assms
proof (cases rule: prologue_cases)
  case (build_raised e)
  from build_payload_frame [OF build_raised(2)] show ?thesis by simp
next
  case (built cy0 c0)
  from build_payload_frame [OF built(1)] built(2) show ?thesis
    by (simp add: with_checksd_def split: option.splits)
qed

lemma prologue_checks:
  assumes "prologue cd se w c = (Inr cy, c1)"
  shows "initialized_checks_d c1 = checks_of cd c
     \<and> init_failed_checks_d c1
         = (case cd of None \<Rightarrow> init_failed_checks_d c | Some d \<Rightarrow> init_failed_checks d)"
  using assms
proof (cases rule: prologue_cases)
  case (build_raised e)
  then show ?thesis by simp
next
  case (built cy0 c0)
  from build_payload_frame [OF built(1)] built(2) show ?thesis
    by (simp add: with_checksd_def checks_of_def split: option.splits)
qed

section \<open>How a run can end\<close>


lemma emit_loop_calls:
  "emit_loop ems p cr sts tr = (sts', cr', tr') \<Longrightarrow>
     \<forall>x\<in>set tr. (\<forall>n q. x = EmitterCall n q \<longrightarrow> q = p) \<and> \<not> is_persist_call x \<Longrightarrow>
     \<forall>x\<in>set tr'. (\<forall>n q. x = EmitterCall n q \<longrightarrow> q = p) \<and> \<not> is_persist_call x"
  by (induction ems p cr sts tr rule: emit_loop.induct)
     (auto simp: Let_def split: if_splits option.splits)

lemma emit_calls:
  "emit p c = (sts, c2, etr) \<Longrightarrow>
     \<forall>x\<in>set etr. (\<forall>n q. x = EmitterCall n q \<longrightarrow> q = p) \<and> \<not> is_persist_call x"
  by (auto simp: emit_def split: prod.splits dest!: emit_loop_calls)

lemma emit_stopped:
  "\<not> continue_running c \<Longrightarrow> emit p c = (sts, c2, etr) \<Longrightarrow> sts = [] \<and> etr = []"
  by (cases "emitters c") (auto simp: emit_def)

lemma quiet_finished_log [simp]: "quiet (finished_log c)"
  by (simp add: finished_log_def)

lemma finish_cases:
  assumes "finish w c sts cy = (r, c')"
  obtains (raised) e where "r = Raised e" and "c' = c"
      and "and_then (w_agent_metrics w) py_iter = Inl e"
    | (completed) ms sts_e c2 etr rest where
        "and_then (w_agent_metrics w) py_iter = Inr ms"
        and "emit (final_payload cy ms) c = (sts_e, c2, etr)"
        and "r = Completed (final_payload cy ms)
                   (trace cy @ Invoke ''agent_metrics'' # etr
                      @ PersistCall sts sts_e (metadata_cache c2) # rest)"
        and "quiet rest"
        and "c' = c2\<lparr>emit_duration := PFloat (w_emit_duration w)\<rparr>"
proof (cases "and_then (w_agent_metrics w) py_iter")
  case (Inl e)
  with assms have "r = Raised e" "c' = c" by (simp_all add: finish_def Let_def)
  with Inl show ?thesis using raised by blast
next
  case (Inr ms)
  obtain sts_e c2 etr where e: "emit (final_payload cy ms) c = (sts_e, c2, etr)"
    by (cases "emit (final_payload cy ms) c") auto
  define rest where "rest = (case w_persist w of None \<Rightarrow> []
      | Some e \<Rightarrow> [Log ''exception'' ''Error persisting collector status'' []])
      @ finished_log (c2\<lparr>emit_duration := PFloat (w_emit_duration w)\<rparr>)"
  have q: "quiet rest" by (simp add: rest_def split: option.splits)
  from assms Inr e have
    "r = Completed (final_payload cy ms)
                   (trace cy @ Invoke ''agent_metrics'' # etr
                      @ PersistCall sts sts_e (metadata_cache c2) # rest)"
    and "c' = c2\<lparr>emit_duration := PFloat (w_emit_duration w)\<rparr>"
    by (auto simp: finish_def Let_def final_payload_def rest_def)
  with Inr e q show ?thesis using completed by blast
qed

lemma epilogue_cases:
  assumes "epilogue w c sts cy = (r, c')"
  obtains (raised) e where "r = Raised e"
      and "init_failed_statuses (init_failed_checks_d c) (continue_running c) sts = Inl e"
    | (stopped) "r = Stopped (trace cy)" and "c' = c"
      and "init_failed_statuses (init_failed_checks_d c) (continue_running c) sts = Inr None"
    | (finished) sts' where "finish w c sts' cy = (r, c')"
      and "init_failed_statuses (init_failed_checks_d c) (continue_running c) sts = Inr (Some sts')"
proof (cases "init_failed_statuses (init_failed_checks_d c) (continue_running c) sts")
  case (Inl e)
  with assms have "r = Raised e" by (simp add: epilogue_def)
  with Inl show ?thesis using raised by blast
next
  case (Inr res)
  show ?thesis
  proof (cases res)
    case None
    with Inr assms have "r = Stopped (trace cy)" "c' = c" by (simp_all add: epilogue_def)
    with Inr None show ?thesis using stopped by blast
  next
    case (Some sts')
    with Inr assms have "finish w c sts' cy = (r, c')" by (simp add: epilogue_def)
    with Inr Some show ?thesis using finished by blast
  qed
qed

lemma run_cases:
  assumes "run cd se w c = (r, c')"
  obtains (prologue_raised) e where "prologue cd se w c = (Inl e, c')" and "r = Raised e"
    | (left_loop) cy1 c1 cr sts cy2 where "prologue cd se w c = (Inr cy1, c1)"
        and "run_checks_d (initialized_checks_d c1) (continue_running c1) [] cy1
               = (True, cr, sts, cy2)"
        and "r = Stopped (trace cy2)" and "c' = c1\<lparr>continue_running := cr\<rparr>"
    | (after_loop) cy1 c1 cr sts cy2 where "prologue cd se w c = (Inr cy1, c1)"
        and "run_checks_d (initialized_checks_d c1) (continue_running c1) [] cy1
               = (False, cr, sts, cy2)"
        and "epilogue w (c1\<lparr>continue_running := cr\<rparr>) sts cy2 = (r, c')"
proof -
  obtain pr c1 where p: "prologue cd se w c = (pr, c1)" by (cases "prologue cd se w c")
  show ?thesis
  proof (cases pr)
    case (Inl e)
    with p assms have "r = Raised e" "c1 = c'" by (simp_all add: run_def)
    moreover from p Inl have "prologue cd se w c = (Inl e, c1)" by simp
    ultimately show ?thesis using prologue_raised by blast
  next
    case (Inr cy1)
    obtain ret cr sts cy2 where
      l: "run_checks_d (initialized_checks_d c1) (continue_running c1) [] cy1 = (ret, cr, sts, cy2)"
      by (cases "run_checks_d (initialized_checks_d c1) (continue_running c1) [] cy1") auto
    show ?thesis
    proof (cases ret)
      case True
      with p Inr l assms have "r = Stopped (trace cy2)" "c' = c1\<lparr>continue_running := cr\<rparr>"
        by (simp_all add: run_def Let_def)
      moreover from p Inr have "prologue cd se w c = (Inr cy1, c1)" by simp
      moreover from l True
      have "run_checks_d (initialized_checks_d c1) (continue_running c1) [] cy1
              = (True, cr, sts, cy2)" by simp
      ultimately show ?thesis using left_loop by blast
    next
      case False
      with p Inr l assms have "epilogue w (c1\<lparr>continue_running := cr\<rparr>) sts cy2 = (r, c')"
        by (simp add: run_def Let_def)
      moreover from p Inr have "prologue cd se w c = (Inr cy1, c1)" by simp
      moreover from l False
      have "run_checks_d (initialized_checks_d c1) (continue_running c1) [] cy1
              = (False, cr, sts, cy2)" by simp
      ultimately show ?thesis using after_loop by blast
    qed
  qed
qed

section \<open>Check statuses\<close>

lemma init_failed_loop_acc:
  "init_failed_loop d cr acc = Inr (Some sts) \<Longrightarrow>
     \<exists>new. sts = acc @ new \<and> map cs_name new = map fst d
        \<and> (\<forall>st\<in>set new. cs_instance_statuses st = PNone \<and> cs_metric_count st = PNone
              \<and> cs_event_count st = PNone)"
proof (induction d arbitrary: acc)
  case Nil
  then show ?case by simp
next
  case (Cons kv d)
  obtain k info where kv: "kv = (k, info)" by (cases kv)
  from Cons.prems kv obtain err tb where
    rec: "init_failed_loop d cr (acc @ [CheckStatus_init_failed k err tb]) = Inr (Some sts)"
    by (auto split: if_splits elim!: and_thenE)
  from Cons.IH [OF rec] obtain new where
    "sts = (acc @ [CheckStatus_init_failed k err tb]) @ new" "map cs_name new = map fst d"
    "\<forall>st\<in>set new. cs_instance_statuses st = PNone \<and> cs_metric_count st = PNone
              \<and> cs_event_count st = PNone"
    by blast
  then show ?case using kv
    by (intro exI [of _ "CheckStatus_init_failed k err tb # new"])
       (simp add: CheckStatus_init_failed_def)
qed

lemma init_failed_statuses_acc:
  "init_failed_statuses f cr acc = Inr (Some sts) \<Longrightarrow>
     \<exists>new. sts = acc @ new
        \<and> (\<forall>st\<in>set new. cs_instance_statuses st = PNone \<and> cs_metric_count st = PNone
              \<and> cs_event_count st = PNone)"
  by (auto simp: init_failed_statuses_def split: pyval.splits dest!: init_failed_loop_acc)

lemma run_Completed_statuses:
  assumes "run cd se w c = (Completed p tr, c')"
  shows "\<exists>sts1 sts2 ems md. PersistCall (sts1 @ sts2) ems md \<in> set tr
           \<and> list_all2 status_fits (checks_of cd c) sts1
           \<and> (\<forall>st\<in>set sts2. cs_instance_statuses st = PNone \<and> cs_metric_count st = PNone
                \<and> cs_event_count st = PNone)"
  using assms
proof (cases rule: run_cases)
  case (prologue_raised e)
  then show ?thesis by simp
next
  case (left_loop cy1 c1 cr sts cy2)
  then show ?thesis by simp
next
  case (after_loop cy1 c1 cr sts cy2)
  from run_checks_d_char [OF after_loop(2)] obtain new where
    new: "sts = [] @ new" "list_all2 status_fits (take (length new) (initialized_checks_d c1)) new"
      "length new = length (initialized_checks_d c1)"
    by auto
  from prologue_checks [OF after_loop(1)] have ch: "initialized_checks_d c1 = checks_of cd c"
    by simp
  from new ch have fits: "list_all2 status_fits (checks_of cd c) sts" by simp
  from after_loop(3) show ?thesis
  proof (cases rule: epilogue_cases)
    case (raised e)
    then show ?thesis by simp
  next
    case stopped
    then show ?thesis by simp
  next
    case (finished sts')
    from init_failed_statuses_acc [OF finished(2)] obtain sts2 where
      s2: "sts' = sts @ sts2"
        "\<forall>st\<in>set sts2. cs_instance_statuses st = PNone \<and> cs_metric_count st = PNone
                \<and> cs_event_count st = PNone"
      by blast
    from finished(1) show ?thesis
    proof (cases rule: finish_cases)
      case (raised e)
      then show ?thesis by simp
    next
      case (completed ms sts_e c2 etr rest)
      from completed(3) have "PersistCall sts' sts_e (metadata_cache c2) \<in> set tr"
        by auto
      with s2 fits show ?thesis by blast
    qed
  qed
qed


lemma two_checks_completes:
  "\<exists>p tr. fst (run (Some two_checks) True quiet_world (fresh_collector ''linux'' []))
             = Completed p tr"
  by (simp add: run_eval two_checks_def)


end
